theory Spec2Isabelle
  imports Complex_Main
begin

section \<open>Console output and errors\<close>

text \<open>
  The module prints through a timestamping wrapper of \<^verbatim>\<open>print\<close>. A printed line is a
  value of \<open>line\<close>; the wall-clock prefix and the elapsed-time figures are left out.
  Recording ids are \<open>nat option\<close>: \<^verbatim>\<open>current_recording_id\<close> is \<^verbatim>\<open>None\<close> while idle.
\<close>

datatype line =
    Pedal_released int
  | Ignoring_noisy_pedal int
  | Pedal_pressed int
  | Starting_recording
  | Time_taken_to_start
  | Stopping_recording
  | Encoding_frames nat "nat option"
  | Recording_not_found "nat option"
  | Encoded_and_muxed nat "nat option"
  | Time_taken
  | Error_encoding_frames
  | Recording_saved string nat
  | Error_finalizing "nat option"

datatype py_error = IndexError

section \<open>MidiListener\<close>

text \<open>
  The fields of \<^verbatim>\<open>MidiListener\<close> that the callback and the main loop use. Timestamps
  (\<^verbatim>\<open>time.time()\<close>) are reals; \<open>midi_out\<close> is what the listener has printed.
\<close>

record midi_listener =
  running :: bool
  last_event_time :: "real option"
  pedal_pressed :: bool
  note_event_occurred :: bool
  midi_out :: "line list"

text \<open>
  \<^verbatim>\<open>midi_callback(self, message, _)\<close>, with \<open>now\<close> the value of \<^verbatim>\<open>time.time()\<close> during the
  call and \<open>midi_message\<close> the list of bytes of the message. Indexing an empty message
  raises.
\<close>

definition midi_callback :: "midi_listener \<Rightarrow> real \<Rightarrow> int list \<Rightarrow> py_error + midi_listener" where
  "midi_callback m now midi_message =
     (if length midi_message \<ge> 3 \<and> midi_message ! 0 = 176 \<and> midi_message ! 1 = 64 then
        (let pedal_value = midi_message ! 2 in
         if pedal_value < 40 then
           (if pedal_pressed m then
              Inr (m\<lparr>midi_out := midi_out m @ [Pedal_released pedal_value],
                     last_event_time := Some now,
                     pedal_pressed := False\<rparr>)
            else
              Inr (m\<lparr>midi_out := midi_out m @ [Ignoring_noisy_pedal pedal_value]\<rparr>))
         else
           (let m1 = (if \<not> pedal_pressed m then
                        m\<lparr>midi_out := midi_out m @ [Pedal_pressed pedal_value],
                          pedal_pressed := True\<rparr>
                      else m)
            in Inr (m1\<lparr>note_event_occurred := True, last_event_time := Some now\<rparr>)))
      else if midi_message = [] then Inl IndexError
      else if and (midi_message ! 0) 240 = 144 then
        Inr (m\<lparr>note_event_occurred := True, last_event_time := Some now\<rparr>)
      else Inr m)"

text \<open>The listener as \<^verbatim>\<open>__init__\<close> leaves it, once a device was found and opened.\<close>

definition new_midi_listener :: midi_listener where
  "new_midi_listener =
     \<lparr>running = True, last_event_time = None, pedal_pressed = False,
      note_event_occurred = False, midi_out = []\<rparr>"

text \<open>\<^verbatim>\<open>check_and_clear_event\<close>: the returned flag and the listener afterwards.\<close>

definition check_and_clear_event :: "midi_listener \<Rightarrow> bool \<times> midi_listener" where
  "check_and_clear_event m =
     (if note_event_occurred m then (True, m\<lparr>note_event_occurred := False\<rparr>)
      else (False, m))"

text \<open>
  The driver delivers messages one at a time; \<open>midi_callbacks\<close> runs the callback over a
  list of (receive time, message) pairs and stops at the first message that raises.
\<close>

fun midi_callbacks :: "midi_listener \<Rightarrow> (real \<times> int list) list \<Rightarrow> py_error + midi_listener" where
  "midi_callbacks m [] = Inr m"
| "midi_callbacks m ((now, msg) # rest) =
     (case midi_callback m now msg of
        Inl e \<Rightarrow> Inl e
      | Inr m' \<Rightarrow> midi_callbacks m' rest)"

text \<open>
  The bytes of a control change message: the status byte 176 plus the channel (0 to 15,
  for the MIDI channels 1 to 16), the controller and the value. The sustain pedal is
  controller 64.
\<close>

definition control_change :: "int \<Rightarrow> int \<Rightarrow> int \<Rightarrow> int list" where
  "control_change channel controller v = [176 + channel, controller, v]"

section \<open>VideoRecorder\<close>

subsection \<open>Data\<close>

text \<open>
  \<^verbatim>\<open>datetime.now()\<close>, to the second. An entry of \<^verbatim>\<open>active_recordings\<close> holds the start
  time, the frame count and the PyAV container with its stream and byte buffer; the
  container is represented by \<open>muxed\<close>, the frames that were encoded and muxed into it,
  in that order.
\<close>

record datetime =
  year :: nat
  month :: nat
  day :: nat
  hour :: nat
  minute :: nat
  second :: nat

text \<open>
  A \<^verbatim>\<open>VideoFrame\<close> as the encoder receives it: the image, and the \<^verbatim>\<open>pts\<close> and \<^verbatim>\<open>time_base\<close>
  that \<^verbatim>\<open>_encode_frames\<close> sets on it.
\<close>

record 'f av_frame =
  image :: 'f
  pts :: nat
  time_base :: rat

record 'f recording_data =
  start_time :: datetime
  muxed :: "'f av_frame list"
  frame_count :: nat

text \<open>The two kinds of dictionary put on \<^verbatim>\<open>encoding_queue\<close>.\<close>

datatype 'f task =
    Encode_frames "'f list" "nat option"
  | Finalize_recording "nat option"

text \<open>
  The recorder. \<open>frame_buffer\<close> is the \<^verbatim>\<open>deque(maxlen=buffer_size)\<close>, oldest frame first;
  \<open>encoding_queue\<close> is the FIFO queue, next task first; \<open>files\<close> is the output directory
  (path to bytes written, the bytes again represented by the muxed frames) and
  \<open>video_out\<close> what the recorder has printed.
\<close>

record 'f recorder =
  recording :: bool
  fps :: nat
  buffer_size :: nat
  frame_buffer :: "'f list"
  active_recordings :: "nat \<rightharpoonup> 'f recording_data"
  next_recording_id :: nat
  current_recording_id :: "nat option"
  encoding_queue :: "'f task list"
  files :: "string \<rightharpoonup> 'f av_frame list"
  video_out :: "line list"

definition preroll_seconds :: nat where
  "preroll_seconds = 3"

text \<open>The state \<^verbatim>\<open>__init__\<close> leaves, for a camera that reports \<open>camera_fps\<close> frames a second.\<close>

definition new_recorder :: "nat \<Rightarrow> 'f recorder" where
  "new_recorder camera_fps =
     \<lparr>recording = False,
      fps = camera_fps,
      buffer_size = camera_fps * preroll_seconds,
      frame_buffer = [],
      active_recordings = Map.empty,
      next_recording_id = 0,
      current_recording_id = None,
      encoding_queue = [],
      files = Map.empty,
      video_out = []\<rparr>"

text \<open>
  \<^verbatim>\<open>deque.append\<close> on a deque with a maximum length: the item is added on the right and,
  if the deque is then longer than \<open>maxlen\<close>, one item is dropped on the left.
\<close>

definition deque_append :: "nat \<Rightarrow> 'a list \<Rightarrow> 'a \<Rightarrow> 'a list" where
  "deque_append maxlen d x =
     (let d' = d @ [x] in if maxlen < length d' then tl d' else d')"

text \<open>Truth value of \<^verbatim>\<open>frames_to_encode\<close>: \<^verbatim>\<open>None\<close> and the empty list are false.\<close>

fun truthy :: "'a list option \<Rightarrow> bool" where
  "truthy None = False"
| "truthy (Some xs) = (xs \<noteq> [])"

text \<open>\<^verbatim>\<open>recording_id in self.active_recordings\<close> and the lookup.\<close>

fun lookup_recording :: "'f recorder \<Rightarrow> nat option \<Rightarrow> 'f recording_data option" where
  "lookup_recording s None = None"
| "lookup_recording s (Some i) = active_recordings s i"

definition put :: "'f recorder \<Rightarrow> 'f task \<Rightarrow> 'f recorder" where
  "put s t = s\<lparr>encoding_queue := encoding_queue s @ [t]\<rparr>"

definition print_line :: "'f recorder \<Rightarrow> line \<Rightarrow> 'f recorder" where
  "print_line s l = s\<lparr>video_out := video_out s @ [l]\<rparr>"

subsection \<open>Capture thread\<close>

text \<open>
  One iteration of the loop of \<^verbatim>\<open>_capture_frames\<close>. \<open>r\<close> is the result of
  \<^verbatim>\<open>self.capture.read()\<close>: \<open>Some frame\<close>, or \<open>None\<close> when the read failed (the loop then
  sleeps and changes nothing). The timing diagnostic is not modelled.
\<close>

definition capture_frames :: "'f recorder \<Rightarrow> 'f option \<Rightarrow> 'f recorder" where
  "capture_frames s r =
     (case r of
        None \<Rightarrow> s
      | Some frame \<Rightarrow>
          (let full = recording s \<and> length (frame_buffer s) \<ge> buffer_size s;
               frames_to_encode = (if full then Some (frame_buffer s) else None);
               buf = (if full then [] else frame_buffer s);
               s1 = s\<lparr>frame_buffer := deque_append (buffer_size s) buf frame\<rparr>
           in if truthy frames_to_encode then
                put s1 (Encode_frames (the frames_to_encode) (current_recording_id s1))
              else s1))"

fun capture_all :: "'f recorder \<Rightarrow> 'f option list \<Rightarrow> 'f recorder" where
  "capture_all s [] = s"
| "capture_all s (r # rs) = capture_all (capture_frames s r) rs"

subsection \<open>Encoding thread\<close>

text \<open>
  \<^verbatim>\<open>_encode_frames(frames, recording_id)\<close>. The encoder is outside the program, so whether
  it raises is an input: \<open>fault = Some i\<close> says that building, encoding or muxing the
  frame with index \<open>i\<close> of the batch raises (no effect when \<open>i\<close> is past the batch),
  \<open>None\<close> that nothing raises. With \<open>fps = 0\<close> the time base \<^verbatim>\<open>Fraction(1, self.fps)\<close> raises
  at the first frame. Frames before the one that raises have been muxed already; the
  frame count is written only after the whole batch. \<open>stamp f fc frames\<close> are the frames
  of the batch as the loop hands them to the encoder, for the frame rate \<open>f\<close> and the
  frame count \<open>fc\<close> read at the start.
\<close>

definition stamp :: "nat \<Rightarrow> nat \<Rightarrow> 'f list \<Rightarrow> 'f av_frame list" where
  "stamp f fc frames =
     map (\<lambda>(i, frame). \<lparr>image = frame, pts = fc + i, time_base = Fract 1 (int f)\<rparr>)
       (enumerate 0 frames)"

definition encode_frames :: "'f recorder \<Rightarrow> 'f list \<Rightarrow> nat option \<Rightarrow> nat option \<Rightarrow> 'f recorder" where
  "encode_frames s frames recording_id fault =
     (if frames = [] then s
      else
        (let s1 = print_line s (Encoding_frames (length frames) recording_id) in
         case lookup_recording s1 recording_id of
           None \<Rightarrow> print_line s1 (Recording_not_found recording_id)
         | Some recording_data \<Rightarrow>
             (let rid = the recording_id;
                  fc = frame_count recording_data;
                  stamped = stamp (fps s1) fc frames;
                  raises = (if fps s1 = 0 then Some 0 else fault);
                  encoded = (case raises of None \<Rightarrow> stamped | Some i \<Rightarrow> take i stamped);
                  s2 = s1\<lparr>active_recordings := (active_recordings s1)
                            (rid \<mapsto> recording_data\<lparr>muxed := muxed recording_data @ encoded\<rparr>)\<rparr>
              in if (case raises of None \<Rightarrow> False | Some i \<Rightarrow> i < length frames) then
                   print_line s2 Error_encoding_frames
                 else
                   (let s3 = (case active_recordings s2 rid of
                                None \<Rightarrow> s2
                              | Some d \<Rightarrow>
                                  s2\<lparr>active_recordings := (active_recordings s2)
                                        (rid \<mapsto> d\<lparr>frame_count := fc + length frames\<rparr>)\<rparr>)
                    in print_line (print_line s3 (Encoded_and_muxed (length frames) recording_id))
                         Time_taken))))"

subsection \<open>File names\<close>

text \<open>
  \<^verbatim>\<open>strftime\<close> writes the year in at least four digits and the other fields in at least
  two, padded with zeros.
\<close>

definition digit_char :: "nat \<Rightarrow> char" where
  "digit_char d = char_of (48 + d)"

fun decimal :: "nat \<Rightarrow> string" where
  "decimal n = (if n < 10 then [digit_char n] else decimal (n div 10) @ [digit_char (n mod 10)])"

declare decimal.simps [simp del]

definition zero_padded :: "nat \<Rightarrow> nat \<Rightarrow> string" where
  "zero_padded w n = replicate (w - length (decimal n)) (CHR ''0'') @ decimal n"

definition strftime :: "datetime \<Rightarrow> string" where
  "strftime t =
     ''110bpm---'' @ zero_padded 4 (year t) @ ''-'' @ zero_padded 2 (month t) @ ''-''
       @ zero_padded 2 (day t) @ ''---'' @ zero_padded 2 (hour t) @ ''-''
       @ zero_padded 2 (minute t) @ ''-'' @ zero_padded 2 (second t)"

definition video_recordings_dir :: string where
  "video_recordings_dir = ''C:/Users/shayan/Desktop/piano/video_recordings''"

definition video_file :: "datetime \<Rightarrow> string" where
  "video_file t = video_recordings_dir @ ''/'' @ strftime t @ ''.mp4''"

text \<open>Reading a decimal numeral back, to state what a file name encodes.\<close>

definition digit_value :: "char \<Rightarrow> nat" where
  "digit_value c = of_char c - 48"

definition is_digit :: "char \<Rightarrow> bool" where
  "is_digit c = (48 \<le> (of_char c :: nat) \<and> (of_char c :: nat) \<le> 57)"

definition read_decimal :: "string \<Rightarrow> nat" where
  "read_decimal cs = foldl (\<lambda>acc c. 10 * acc + digit_value c) 0 cs"

subsection \<open>Finalisation and the worker loop\<close>

text \<open>
  \<^verbatim>\<open>_finalize_recording(recording_id)\<close>. \<open>fault\<close> says that flushing the encoder, closing
  the container or opening the output file raises; the handler prints and returns. The
  entry is deleted from \<^verbatim>\<open>active_recordings\<close> before any of these.
\<close>

definition finalize_recording :: "'f recorder \<Rightarrow> nat option \<Rightarrow> bool \<Rightarrow> 'f recorder" where
  "finalize_recording s recording_id fault =
     (case lookup_recording s recording_id of
        None \<Rightarrow> print_line s (Recording_not_found recording_id)
      | Some recording_data \<Rightarrow>
          (let s1 = s\<lparr>active_recordings := (active_recordings s)(the recording_id := None)\<rparr>
           in if fault then print_line s1 (Error_finalizing recording_id)
              else
                print_line
                  (s1\<lparr>files := (files s1)
                        (video_file (start_time recording_data) \<mapsto> muxed recording_data)\<rparr>)
                  (Recording_saved (video_file (start_time recording_data))
                     (frame_count recording_data))))"

text \<open>
  One iteration of the loop of \<^verbatim>\<open>_encoding_worker\<close>: with an empty queue the \<^verbatim>\<open>get\<close> times
  out and the loop continues; otherwise the first task is taken and run. \<open>fault\<close> is the
  behaviour of the encoder during this task, as in \<open>encode_frames\<close>; for a finalisation
  any \<open>Some\<close> means that it raises.
\<close>

definition encoding_worker :: "'f recorder \<Rightarrow> nat option \<Rightarrow> 'f recorder" where
  "encoding_worker s fault =
     (case encoding_queue s of
        [] \<Rightarrow> s
      | task # rest \<Rightarrow>
          (let s1 = s\<lparr>encoding_queue := rest\<rparr> in
           case task of
             Encode_frames frames recording_id \<Rightarrow> encode_frames s1 frames recording_id fault
           | Finalize_recording recording_id \<Rightarrow>
               finalize_recording s1 recording_id (fault \<noteq> None)))"

fun encoding_worker_all :: "'f recorder \<Rightarrow> nat option list \<Rightarrow> 'f recorder" where
  "encoding_worker_all s [] = s"
| "encoding_worker_all s (fault # faults) = encoding_worker_all (encoding_worker s fault) faults"

subsection \<open>Starting and stopping\<close>

text \<open>
  \<^verbatim>\<open>start_recording\<close> in its two locked regions: under \<^verbatim>\<open>encode_lock\<close> the new entry is
  registered (\<open>start_register\<close>, with \<open>now\<close> the value of \<^verbatim>\<open>datetime.now()\<close>), then under
  the capture lock the flag is set and the pre-roll buffer taken (\<open>start_flip\<close>). Opening
  the container and adding the stream are taken to succeed.
\<close>

definition start_register :: "'f recorder \<Rightarrow> datetime \<Rightarrow> 'f recorder" where
  "start_register s now =
     (let s1 = print_line s Starting_recording;
          recording_id = next_recording_id s1;
          s2 = s1\<lparr>next_recording_id := next_recording_id s1 + 1\<rparr>
      in s2\<lparr>active_recordings := (active_recordings s2)
               (recording_id \<mapsto> \<lparr>start_time = now, muxed = [], frame_count = 0\<rparr>)\<rparr>)"

definition start_flip :: "'f recorder \<Rightarrow> nat \<Rightarrow> 'f recorder" where
  "start_flip s recording_id =
     (let s1 = s\<lparr>recording := True, current_recording_id := Some recording_id\<rparr>;
          frames_to_encode = (if length (frame_buffer s1) > 0 then frame_buffer s1 else []);
          s2 = (if length (frame_buffer s1) > 0 then s1\<lparr>frame_buffer := []\<rparr> else s1);
          s3 = (if frames_to_encode \<noteq> [] then
                  put s2 (Encode_frames frames_to_encode (Some recording_id))
                else s2)
      in print_line s3 Time_taken_to_start)"

definition start_recording :: "'f recorder \<Rightarrow> datetime \<Rightarrow> 'f recorder" where
  "start_recording s now =
     (if recording s then s
      else start_flip (start_register s now) (next_recording_id s))"

text \<open>\<^verbatim>\<open>stop_recording\<close>: one region under the capture lock.\<close>

definition stop_recording :: "'f recorder \<Rightarrow> 'f recorder" where
  "stop_recording s =
     (if \<not> recording s then s
      else
        (let s1 = print_line s Stopping_recording;
             recording_id = current_recording_id s1;
             s2 = (if length (frame_buffer s1) > 0 then
                     put s1 (Encode_frames (frame_buffer s1) recording_id)
                   else s1);
             s3 = put s2 (Finalize_recording recording_id)
         in s3\<lparr>recording := False, current_recording_id := None\<rparr>))"

section \<open>Main loop\<close>

text \<open>\<^verbatim>\<open>while midi_listener.check_and_clear_event(): pass\<close>\<close>

function drain_events :: "midi_listener \<Rightarrow> midi_listener" where
  "drain_events m =
     (case check_and_clear_event m of
        (True, m') \<Rightarrow> drain_events m'
      | (False, m') \<Rightarrow> m')"
  by pat_completeness auto
termination
  by (relation "measure (\<lambda>m. if note_event_occurred m then 1 else 0)")
     (auto simp: check_and_clear_event_def split: if_splits)

declare drain_events.simps [simp del]

text \<open>Truth value of \<^verbatim>\<open>midi_listener.last_event_time\<close>: \<^verbatim>\<open>None\<close> and \<^verbatim>\<open>0.0\<close> are false.\<close>

fun truthy_time :: "real option \<Rightarrow> bool" where
  "truthy_time None = False"
| "truthy_time (Some t) = (t \<noteq> 0)"

text \<open>
  The callback runs in the driver's thread, so messages can arrive while the main loop
  is inside a call. \<open>deliver\<close> is the listener after the driver has called the callback
  for each of them in turn; a call that raises has assigned nothing.
\<close>

fun deliver :: "midi_listener \<Rightarrow> (real \<times> int list) list \<Rightarrow> midi_listener" where
  "deliver m [] = m"
| "deliver m ((now, msg) # rest) =
     deliver (case midi_callback m now msg of Inl e \<Rightarrow> m | Inr m' \<Rightarrow> m') rest"

text \<open>
  The part of one iteration of the main loop that starts and stops recordings (the
  hot-plug check that maintains \<open>device_connected\<close> comes before it). \<open>start_now\<close> is
  \<^verbatim>\<open>datetime.now()\<close>, \<open>now\<close> is \<^verbatim>\<open>time.time()\<close> at the stop test, and \<open>during_stop\<close> are the
  messages that arrive while \<^verbatim>\<open>stop_recording\<close> runs, before the drain loop reads the
  flag; messages at other moments are taken to arrive between passes.
\<close>

definition main_loop :: "bool \<Rightarrow> datetime \<Rightarrow> real \<Rightarrow> (real \<times> int list) list \<Rightarrow> midi_listener \<times> 'f recorder \<Rightarrow> midi_listener \<times> 'f recorder" where
  "main_loop device_connected start_now now during_stop mv =
     (let (midi_listener, video_recorder) = mv in
      if device_connected then
        (let (event, m1) = check_and_clear_event midi_listener;
             v1 = (if event \<and> \<not> recording video_recorder then
                     start_recording video_recorder start_now
                   else video_recorder)
         in if recording v1 \<and> truthy_time (last_event_time m1) then
              (if \<not> pedal_pressed m1 \<and> now - the (last_event_time m1) > 7 then
                 (let v2 = stop_recording v1;
                      m2 = deliver m1 during_stop
                  in (drain_events m2, v2))
               else (m1, v1))
            else (m1, v1))
      else (midi_listener, video_recorder))"

section \<open>The three threads together\<close>

text \<open>
  The capture thread, the encoding thread and the main thread share the recorder. An
  event is one call taken whole: one iteration of the capture loop with the result of
  the read, one iteration of the worker loop with the behaviour of the encoder, a call of
  \<^verbatim>\<open>start_recording\<close> (with the wall-clock time) or of \<^verbatim>\<open>stop_recording\<close>. \<open>run\<close> performs a
  sequence of whole calls. The steps inside a capture iteration and inside
  \<^verbatim>\<open>start_recording\<close>, between which another thread can run, are those of \<open>act\<close> below.
\<close>

datatype 'f event =
    Capture "'f option"
  | Work "nat option"
  | Start datetime
  | Stop

fun step :: "'f recorder \<Rightarrow> 'f event \<Rightarrow> 'f recorder" where
  "step s (Capture r) = capture_frames s r"
| "step s (Work fault) = encoding_worker s fault"
| "step s (Start now) = start_recording s now"
| "step s Stop = stop_recording s"

fun run :: "'f recorder \<Rightarrow> 'f event list \<Rightarrow> 'f recorder" where
  "run s [] = s"
| "run s (e # es) = run (step s e) es"


fun task_recording_id :: "'f task \<Rightarrow> nat option" where
  "task_recording_id (Encode_frames frames recording_id) = recording_id"
| "task_recording_id (Finalize_recording recording_id) = recording_id"

text \<open>The frames waiting in the queue for recording \<open>rid\<close>, in queue order.\<close>

fun task_frames :: "nat \<Rightarrow> 'f task \<Rightarrow> 'f list" where
  "task_frames rid (Encode_frames frames recording_id) =
     (if recording_id = Some rid then frames else [])"
| "task_frames rid (Finalize_recording recording_id) = []"

definition pending :: "nat \<Rightarrow> 'f task list \<Rightarrow> 'f list" where
  "pending rid q = concat (map (task_frames rid) q)"

text \<open>
  What holds of the recorder in every state of every run from \<open>new_recorder\<close>: the deque
  is within its maximum length, which is \<open>fps * preroll_seconds\<close>; the flag is set exactly
  when there is a current recording; and every id in use (the current one, those of the
  entries, those of the queued tasks that carry one) was handed out before.
\<close>

definition recorder_invariant :: "'f recorder \<Rightarrow> bool" where
  "recorder_invariant s \<longleftrightarrow>
     length (frame_buffer s) \<le> buffer_size s \<and>
     buffer_size s = fps s * preroll_seconds \<and>
     (recording s \<longleftrightarrow> current_recording_id s \<noteq> None) \<and>
     (\<forall>i. current_recording_id s = Some i \<longrightarrow> i < next_recording_id s) \<and>
     (\<forall>i. active_recordings s i \<noteq> None \<longrightarrow> i < next_recording_id s) \<and>
     (\<forall>t \<in> set (encoding_queue s). \<forall>i. task_recording_id t = Some i \<longrightarrow> i < next_recording_id s)"

text \<open>
  A field of a file name: \<open>w\<close> characters, all of them digits, that read as the number
  \<open>n\<close>.
\<close>

definition field_ok :: "nat \<Rightarrow> nat \<Rightarrow> string \<Rightarrow> bool" where
  "field_ok w n cs \<longleftrightarrow> length cs = w \<and> list_all is_digit cs \<and> read_decimal cs = n"

text \<open>A wall-clock time for the examples: 9 March 2025, 07:05:00.\<close>

abbreviation sample_time :: datetime where
  "sample_time \<equiv> \<lparr>year = 2025, month = 3, day = 9, hour = 7, minute = 5, second = 0\<rparr>"

text \<open>The range of a \<^verbatim>\<open>datetime\<close>.\<close>

definition valid_datetime :: "datetime \<Rightarrow> bool" where
  "valid_datetime t \<longleftrightarrow>
     1 \<le> year t \<and> year t \<le> 9999 \<and> 1 \<le> month t \<and> month t \<le> 12 \<and>
     1 \<le> day t \<and> day t \<le> 31 \<and> hour t < 24 \<and> minute t < 60 \<and> second t < 60"




section \<open>The hand-offs to the queue\<close>

text \<open>
  The capture loop and \<^verbatim>\<open>start_recording\<close> take their batch under the capture lock and put
  it on the queue after releasing the lock, so a step of another thread can fall in
  between. \<open>capture_locked\<close> is the locked region of a capture iteration (lines 248 to
  257) with the value it leaves in \<^verbatim>\<open>frames_to_encode\<close>, and \<open>capture_put\<close> the put after it
  (lines 259 to 264), which reads \<^verbatim>\<open>current_recording_id\<close> at that moment. \<open>start_locked\<close>
  is the second locked region of \<^verbatim>\<open>start_recording\<close> (lines 370 to 378) and \<open>start_put\<close>
  the put after it (lines 381 to 387).
\<close>

definition capture_locked :: "'f recorder \<Rightarrow> 'f \<Rightarrow> 'f recorder \<times> 'f list option" where
  "capture_locked s frame =
     (let full = recording s \<and> length (frame_buffer s) \<ge> buffer_size s;
          frames_to_encode = (if full then Some (frame_buffer s) else None);
          buf = (if full then [] else frame_buffer s)
      in (s\<lparr>frame_buffer := deque_append (buffer_size s) buf frame\<rparr>, frames_to_encode))"

definition capture_put :: "'f recorder \<Rightarrow> 'f list option \<Rightarrow> 'f recorder" where
  "capture_put s frames_to_encode =
     (if truthy frames_to_encode then
        put s (Encode_frames (the frames_to_encode) (current_recording_id s))
      else s)"

definition start_locked :: "'f recorder \<Rightarrow> nat \<Rightarrow> 'f recorder \<times> 'f list" where
  "start_locked s recording_id =
     (let s1 = s\<lparr>recording := True, current_recording_id := Some recording_id\<rparr>;
          frames_to_encode = (if length (frame_buffer s1) > 0 then frame_buffer s1 else []);
          s2 = (if length (frame_buffer s1) > 0 then s1\<lparr>frame_buffer := []\<rparr> else s1)
      in (s2, frames_to_encode))"

definition start_put :: "'f recorder \<Rightarrow> nat \<Rightarrow> 'f list \<Rightarrow> 'f recorder" where
  "start_put s recording_id frames_to_encode =
     print_line
       (if frames_to_encode \<noteq> [] then
          put s (Encode_frames frames_to_encode (Some recording_id))
        else s)
       Time_taken_to_start"

text \<open>
  Where each thread stands: the capture thread before a read or before its put, holding
  \<^verbatim>\<open>frames_to_encode\<close>; the main thread outside \<^verbatim>\<open>start_recording\<close>, or inside it after
  the first or after the second locked region, holding its \<^verbatim>\<open>recording_id\<close> and then its
  \<^verbatim>\<open>frames_to_encode\<close>.
\<close>

datatype 'f capture_pc = At_read | At_put "'f list option"

datatype 'f main_pc = Idle | Registered nat | Flipped nat "'f list"

record 'f system =
  shared :: "'f recorder"
  capture_thread :: "'f capture_pc"
  main_thread :: "'f main_pc"

text \<open>
  The steps of the threads, each one a region in which no other thread can interfere.
  Capture thread: a read with the locked region after it, and the put. Encoding thread:
  one iteration of the worker loop. Main thread: \<^verbatim>\<open>start_recording\<close> up to the end of its
  first locked region (line 367), its second locked region, its put; and
  \<^verbatim>\<open>stop_recording\<close>. A step that is not the next one of its thread changes nothing.
\<close>

datatype 'f action =
    Read_frame "'f option"
  | Put_batch
  | Worker "nat option"
  | Enter_start datetime
  | Flip
  | Put_preroll
  | Call_stop

fun act :: "'f system \<Rightarrow> 'f action \<Rightarrow> 'f system" where
  "act y (Read_frame r) =
     (case capture_thread y of
        At_read \<Rightarrow>
          (case r of
             None \<Rightarrow> y
           | Some frame \<Rightarrow>
               (case capture_locked (shared y) frame of
                  (s1, frames_to_encode) \<Rightarrow>
                    y\<lparr>shared := s1, capture_thread := At_put frames_to_encode\<rparr>))
      | At_put frames_to_encode \<Rightarrow> y)"
| "act y Put_batch =
     (case capture_thread y of
        At_put frames_to_encode \<Rightarrow>
          y\<lparr>shared := capture_put (shared y) frames_to_encode, capture_thread := At_read\<rparr>
      | At_read \<Rightarrow> y)"
| "act y (Worker fault) = y\<lparr>shared := encoding_worker (shared y) fault\<rparr>"
| "act y (Enter_start now) =
     (case main_thread y of
        Idle \<Rightarrow>
          (if recording (shared y) then y
           else y\<lparr>shared := start_register (shared y) now,
                  main_thread := Registered (next_recording_id (shared y))\<rparr>)
      | Registered recording_id \<Rightarrow> y
      | Flipped recording_id frames_to_encode \<Rightarrow> y)"
| "act y Flip =
     (case main_thread y of
        Registered recording_id \<Rightarrow>
          (case start_locked (shared y) recording_id of
             (s1, frames_to_encode) \<Rightarrow>
               y\<lparr>shared := s1, main_thread := Flipped recording_id frames_to_encode\<rparr>)
      | Idle \<Rightarrow> y
      | Flipped recording_id frames_to_encode \<Rightarrow> y)"
| "act y Put_preroll =
     (case main_thread y of
        Flipped recording_id frames_to_encode \<Rightarrow>
          y\<lparr>shared := start_put (shared y) recording_id frames_to_encode, main_thread := Idle\<rparr>
      | Idle \<Rightarrow> y
      | Registered recording_id \<Rightarrow> y)"
| "act y Call_stop =
     (case main_thread y of
        Idle \<Rightarrow> y\<lparr>shared := stop_recording (shared y)\<rparr>
      | Registered recording_id \<Rightarrow> y
      | Flipped recording_id frames_to_encode \<Rightarrow> y)"

fun acts :: "'f system \<Rightarrow> 'f action list \<Rightarrow> 'f system" where
  "acts y [] = y"
| "acts y (a # as) = acts (act y a) as"

text \<open>The recorder \<open>s\<close> with the capture thread before a read and the main thread idle.\<close>

definition boot :: "'f recorder \<Rightarrow> 'f system" where
  "boot s = \<lparr>shared = s, capture_thread = At_read, main_thread = Idle\<rparr>"

text \<open>
  A call taken whole: the steps of one capture iteration, one worker iteration or one
  call of the main thread, in order and with no step of another thread in between.
\<close>

fun whole :: "'f event \<Rightarrow> 'f action list" where
  "whole (Capture r) = [Read_frame r, Put_batch]"
| "whole (Work fault) = [Worker fault]"
| "whole (Start now) = [Enter_start now, Flip, Put_preroll]"
| "whole Stop = [Call_stop]"




text \<open>
  What holds of the threads in every state: the recorder invariant, and an id held by
  the main thread inside \<^verbatim>\<open>start_recording\<close> was handed out before.
\<close>

definition system_invariant :: "'f system \<Rightarrow> bool" where
  "system_invariant y \<longleftrightarrow>
     recorder_invariant (shared y) \<and>
     (case main_thread y of
        Idle \<Rightarrow> True
      | Registered recording_id \<Rightarrow> recording_id < next_recording_id (shared y)
      | Flipped recording_id frames_to_encode \<Rightarrow> recording_id < next_recording_id (shared y))"



section \<open>The sustain pedal\<close>

lemma midi_callbacks_snoc:
  "midi_callbacks m (xs @ [(now, msg)]) =
     (case midi_callbacks m xs of Inl e \<Rightarrow> Inl e | Inr m' \<Rightarrow> midi_callback m' now msg)"
  by (induction m xs rule: midi_callbacks.induct) (auto split: sum.splits)

lemma midi_callback_sustain:
  "midi_callback m now (control_change 0 64 v) =
     Inr (if v < 40 then
            (if pedal_pressed m then
               m\<lparr>midi_out := midi_out m @ [Pedal_released v], last_event_time := Some now,
                 pedal_pressed := False\<rparr>
             else m\<lparr>midi_out := midi_out m @ [Ignoring_noisy_pedal v]\<rparr>)
          else
            (if \<not> pedal_pressed m then
               m\<lparr>midi_out := midi_out m @ [Pedal_pressed v], pedal_pressed := True\<rparr>
             else m)\<lparr>note_event_occurred := True, last_event_time := Some now\<rparr>)"
  by (simp add: midi_callback_def control_change_def Let_def)

lemma midi_callback_other_channel:
  assumes "0 < channel" and "channel \<le> 15"
  shows "midi_callback m now (control_change channel controller v) = Inr m"
proof -
  from assms have "channel = 1 \<or> channel = 2 \<or> channel = 3 \<or> channel = 4 \<or> channel = 5 \<or>
      channel = 6 \<or> channel = 7 \<or> channel = 8 \<or> channel = 9 \<or> channel = 10 \<or>
      channel = 11 \<or> channel = 12 \<or> channel = 13 \<or> channel = 14 \<or> channel = 15"
    by arith
  then show ?thesis
    by (elim disjE) (simp_all add: midi_callback_def control_change_def)
qed

lemma midi_callback_controller_64:
  assumes "0 \<le> channel" and "channel \<le> 15"
  shows "\<exists>m'. midi_callback m now (control_change channel 64 v) = Inr m'"
proof (cases "channel = 0")
  case True
  then show ?thesis by (simp add: midi_callback_sustain)
next
  case False
  with assms show ?thesis by (simp add: midi_callback_other_channel)
qed

lemma midi_callbacks_controller_64:
  "\<forall>e \<in> set evs. 0 \<le> fst (snd e) \<and> fst (snd e) \<le> 15 \<Longrightarrow>
   \<exists>m'. midi_callbacks m (map (\<lambda>(t, channel, v). (t, control_change channel 64 v)) evs) = Inr m'"
proof (induction evs arbitrary: m)
  case Nil
  show ?case by simp
next
  case (Cons e evs)
  obtain t channel v where e: "e = (t, channel, v)" by (cases e)
  with Cons.prems have "0 \<le> channel" "channel \<le> 15" by simp_all
  then obtain m1 where "midi_callback m t (control_change channel 64 v) = Inr m1"
    using midi_callback_controller_64 by blast
  moreover from Cons have
    "\<exists>m'. midi_callbacks m1 (map (\<lambda>(t, channel, v). (t, control_change channel 64 v)) evs) = Inr m'"
    by simp
  ultimately show ?case by (simp add: e)
qed

text \<open>
  C4, amended. Let \<open>evs\<close> be any sequence of control changes of controller 64, each a
  receive time \<open>t\<close>, a channel and a value \<open>v\<close>, delivered to the callback from any
  listener state \<open>m\<close>, and let \<open>before\<close> and \<open>after\<close> be the listener just before and just
  after the message at position \<open>i\<close>. The callback never raises on such a sequence. For a
  message on MIDI channel 1 (status byte 176): the release is reported (the line
  \<open>Pedal_released v\<close> is the one printed, the pedal goes from pressed to not pressed)
  exactly when the pedal was pressed before and \<open>v < 40\<close>; the release stamps
  \<open>last_event_time\<close> with \<open>t\<close> and changes nothing else; a value below 40 while released
  changes no field of the listener (only the noise line is printed); a value of 40 or
  more leaves the pedal pressed, the activity flag set and \<open>last_event_time = t\<close>,
  whatever the state before. A message on any other channel (status bytes 177 to 191)
  is ignored: the listener is unchanged and nothing is printed.
\<close>

theorem debounce_correctness:
  assumes "i < length evs" and "\<forall>e \<in> set evs. 0 \<le> fst (snd e) \<and> fst (snd e) \<le> 15"
  shows "\<exists>before after.
           midi_callbacks m (take i (map (\<lambda>(t, channel, v). (t, control_change channel 64 v)) evs))
             = Inr before \<and>
           midi_callbacks m (take (Suc i) (map (\<lambda>(t, channel, v). (t, control_change channel 64 v)) evs))
             = Inr after \<and>
           (case evs ! i of (t, channel, v) \<Rightarrow>
              (channel = 0 \<longrightarrow>
                 ((midi_out after = midi_out before @ [Pedal_released v]) =
                    (pedal_pressed before \<and> v < 40)) \<and>
                 ((pedal_pressed before \<and> \<not> pedal_pressed after) = (pedal_pressed before \<and> v < 40)) \<and>
                 (pedal_pressed before \<and> v < 40 \<longrightarrow>
                    after = before\<lparr>midi_out := midi_out before @ [Pedal_released v],
                                   last_event_time := Some t, pedal_pressed := False\<rparr>) \<and>
                 (\<not> pedal_pressed before \<and> v < 40 \<longrightarrow>
                    after = before\<lparr>midi_out := midi_out before @ [Ignoring_noisy_pedal v]\<rparr>) \<and>
                 (40 \<le> v \<longrightarrow>
                    pedal_pressed after \<and> note_event_occurred after \<and>
                    last_event_time after = Some t)) \<and>
              (channel \<noteq> 0 \<longrightarrow> after = before))"
proof -
  let ?f = "\<lambda>(t :: real, channel, v). (t, control_change channel 64 v)"
  obtain t channel v where e: "evs ! i = (t, channel, v)" by (cases "evs ! i")
  have "evs ! i \<in> set evs" using assms(1) by simp
  with assms(2) e have ch: "0 \<le> channel" "channel \<le> 15" by auto
  have take_eq: "take i (map ?f evs) = map ?f (take i evs)"
    by (simp add: take_map)
  have "\<forall>e \<in> set (take i evs). 0 \<le> fst (snd e) \<and> fst (snd e) \<le> 15"
    using assms(2) by (meson in_set_takeD)
  then obtain before where b: "midi_callbacks m (take i (map ?f evs)) = Inr before"
    using midi_callbacks_controller_64 [of "take i evs" m] take_eq by auto
  have "take (Suc i) (map ?f evs) = take i (map ?f evs) @ [(t, control_change channel 64 v)]"
    using assms(1) e by (simp add: take_Suc_conv_app_nth)
  then have a: "midi_callbacks m (take (Suc i) (map ?f evs)) =
                midi_callback before t (control_change channel 64 v)"
    using b by (simp add: midi_callbacks_snoc)
  show ?thesis
  proof (cases "channel = 0")
    case True
    show ?thesis
      unfolding a b e True midi_callback_sustain
      by (cases "v < 40"; cases "pedal_pressed before") auto
  next
    case False
    with ch have "midi_callback before t (control_change channel 64 v) = Inr before"
      by (simp add: midi_callback_other_channel)
    with False show ?thesis
      unfolding a b e by simp
  qed
qed

text \<open>
  Without the restriction to channel 1 the statement fails: a pedal value of 100 on
  channel 2 leaves a fresh listener as it was, with the pedal up, no activity flagged
  and no time stamped.
\<close>

theorem debounce_correctness_counterexample:
  "(40 :: int) \<le> 100 \<and>
   midi_callbacks new_midi_listener [(1, control_change 1 64 100)] = Inr new_midi_listener \<and>
   \<not> pedal_pressed new_midi_listener \<and>
   \<not> note_event_occurred new_midi_listener \<and>
   last_event_time new_midi_listener = None"
  by (simp add: midi_callback_def control_change_def new_midi_listener_def)

text \<open>
  The theorem at a press (100) and a release (10) on channel 1, followed by a message on
  channel 2, looking at the release: it is printed and stamped with its time 2, and the
  pedal is up afterwards.
\<close>

theorem debounce_correctness_witness:
  "(1::nat) < length [(1::real, 0::int, 100::int), (2, 0, 10), (3, 1, 100)] \<and>
   list_all (\<lambda>e. 0 \<le> fst (snd e) \<and> fst (snd e) \<le> 15) [(1::real, 0::int, 100::int), (2, 0, 10), (3, 1, 100)] \<and>
   midi_callbacks new_midi_listener
     (take 1 (map (\<lambda>(t, channel, v). (t, control_change channel 64 v)) [(1, 0, 100), (2, 0, 10), (3, 1, 100)]))
     = Inr (new_midi_listener\<lparr>midi_out := [Pedal_pressed 100], pedal_pressed := True,
              note_event_occurred := True, last_event_time := Some 1\<rparr>) \<and>
   midi_callbacks new_midi_listener
     (take (Suc 1) (map (\<lambda>(t, channel, v). (t, control_change channel 64 v)) [(1, 0, 100), (2, 0, 10), (3, 1, 100)]))
     = Inr (new_midi_listener\<lparr>midi_out := [Pedal_pressed 100, Pedal_released 10], pedal_pressed := False,
              note_event_occurred := True, last_event_time := Some 2\<rparr>)"
proof -
  let ?evs = "[(1::real, 0::int, 100::int), (2, 0, 10), (3, 1, 100)]"
  let ?f = "\<lambda>(t :: real, channel, v). (t, control_change channel 64 v)"
  have h1: "(1::nat) < length ?evs" by simp
  have h2: "\<forall>e \<in> set ?evs. 0 \<le> fst (snd e) \<and> fst (snd e) \<le> 15" by simp
  have h2': "list_all (\<lambda>e. 0 \<le> fst (snd e) \<and> fst (snd e) \<le> 15) ?evs" by simp
  from debounce_correctness [OF h1 h2, of new_midi_listener]
  obtain before after where
    b: "midi_callbacks new_midi_listener (take 1 (map ?f ?evs)) = Inr before"
    and a: "midi_callbacks new_midi_listener (take (Suc 1) (map ?f ?evs)) = Inr after"
    and r: "pedal_pressed before \<and> (10::int) < 40 \<longrightarrow>
              after = before\<lparr>midi_out := midi_out before @ [Pedal_released 10],
                             last_event_time := Some 2, pedal_pressed := False\<rparr>"
    by auto
  have b': "before = new_midi_listener\<lparr>midi_out := [Pedal_pressed 100], pedal_pressed := True,
              note_event_occurred := True, last_event_time := Some 1\<rparr>"
    using b by (auto simp: midi_callback_sustain new_midi_listener_def)
  with r have "after = new_midi_listener\<lparr>midi_out := [Pedal_pressed 100, Pedal_released 10],
      pedal_pressed := False, note_event_occurred := True, last_event_time := Some 2\<rparr>"
    by (simp add: new_midi_listener_def)
  with a b b' h1 h2' show ?thesis by simp
qed

section \<open>The pre-roll buffer\<close>

lemma deque_append_drop:
  "length d \<le> maxlen \<Longrightarrow>
   deque_append maxlen d x = drop (length (d @ [x]) - maxlen) (d @ [x])"
  by (cases d) (auto simp: deque_append_def Let_def Suc_diff_le)

lemma capture_frames_idle:
  "\<not> recording s \<Longrightarrow>
   capture_frames s (Some frame) =
     s\<lparr>frame_buffer := deque_append (buffer_size s) (frame_buffer s) frame\<rparr>"
  by (simp add: capture_frames_def)

lemma drop_excess_step:
  fixes b :: "'a list"
  shows "drop (length (drop (length (b @ [f]) - cap) (b @ [f]) @ fs) - cap)
           (drop (length (b @ [f]) - cap) (b @ [f]) @ fs) =
         drop (length (b @ f # fs) - cap) (b @ f # fs)"
proof -
  let ?k = "length (b @ [f]) - cap"
  have 1: "drop ?k (b @ [f]) @ fs = drop ?k (b @ f # fs)"
    by (cases cap) simp_all
  have 2: "length (drop ?k (b @ f # fs)) - cap + ?k = length (b @ f # fs) - cap"
    by simp
  show ?thesis
    unfolding 1 by (simp only: drop_drop 2)
qed

lemma capture_all_idle:
  "\<not> recording s \<Longrightarrow> length (frame_buffer s) \<le> buffer_size s \<Longrightarrow>
   capture_all s (map Some fs) =
     s\<lparr>frame_buffer :=
         drop (length (frame_buffer s @ fs) - buffer_size s) (frame_buffer s @ fs)\<rparr>"
proof (induction fs arbitrary: s)
  case Nil
  then show ?case by simp
next
  case (Cons f fs)
  let ?b = "drop (length (frame_buffer s @ [f]) - buffer_size s) (frame_buffer s @ [f])"
  let ?s1 = "capture_frames s (Some f)"
  have s1: "?s1 = s\<lparr>frame_buffer := ?b\<rparr>"
    using Cons.prems by (simp add: capture_frames_idle deque_append_drop)
  have len: "length ?b \<le> buffer_size s"
    by simp
  have "capture_all (s\<lparr>frame_buffer := ?b\<rparr>) (map Some fs) =
        s\<lparr>frame_buffer := ?b\<rparr>\<lparr>frame_buffer := drop (length (?b @ fs) - buffer_size s) (?b @ fs)\<rparr>"
    using Cons.IH [of "s\<lparr>frame_buffer := ?b\<rparr>"] Cons.prems(1) len by simp
  then have "capture_all ?s1 (map Some fs) =
        s\<lparr>frame_buffer := drop (length (frame_buffer s @ f # fs) - buffer_size s) (frame_buffer s @ f # fs)\<rparr>"
    unfolding s1 drop_excess_step by simp
  then show ?case by simp
qed

text \<open>
  C5. A recorder that is not recording and whose buffer is empty reads the frames \<open>fs\<close>
  one after the other. With the capacity \<open>fps * preroll_seconds\<close> that \<^verbatim>\<open>__init__\<close> gives
  the deque, the buffer then holds \<open>min capacity (length fs)\<close> frames, and they are the
  last that many frames of \<open>fs\<close>, in the order they were read.
\<close>

theorem preroll_invariant:
  assumes "\<not> recording s" and "frame_buffer s = []"
    and "buffer_size s = fps s * preroll_seconds"
  shows "length (frame_buffer (capture_all s (map Some fs))) = min (fps s * preroll_seconds) (length fs) \<and>
         frame_buffer (capture_all s (map Some fs)) =
           drop (length fs - min (fps s * preroll_seconds) (length fs)) fs"
  using assms capture_all_idle [of s fs] by (auto simp: min_def)

text \<open>A camera at one frame a second (capacity 3) reads five frames: the last three stay.\<close>

theorem preroll_invariant_witness:
  "\<not> recording (new_recorder 1 :: nat recorder) \<and>
   frame_buffer (new_recorder 1 :: nat recorder) = [] \<and>
   buffer_size (new_recorder 1 :: nat recorder) = fps (new_recorder 1 :: nat recorder) * preroll_seconds \<and>
   length (frame_buffer (capture_all (new_recorder 1 :: nat recorder) (map Some [10, 20, 30, 40, 50]))) = 3 \<and>
   frame_buffer (capture_all (new_recorder 1 :: nat recorder) (map Some [10, 20, 30, 40, 50])) = [30, 40, 50]"
  using preroll_invariant [of "new_recorder 1 :: nat recorder" "[10, 20, 30, 40, 50]"]
  by (simp add: new_recorder_def preroll_seconds_def)

text \<open>
  C6, amended. One capture iteration that obtains \<open>frame\<close>, on a deque within its
  maximum length. With a positive capacity: if the recorder is recording and the buffer
  holds \<open>buffer_size\<close> frames, the whole buffer goes, in order, into one \<open>Encode_frames\<close>
  task for the current recording at the end of the queue, and the buffer is left holding
  the new frame alone; otherwise the queue is unchanged: below capacity the frame is
  appended, and at capacity while idle the oldest frame makes room for it. With capacity
  0 (a camera that reports 0 frames a second) the iteration changes nothing: the drained
  batch is empty, so no task is queued, and the deque keeps no frame.
\<close>

theorem drain_on_full:
  assumes "length (frame_buffer s) \<le> buffer_size s"
  shows "capture_frames s (Some frame) =
           (if buffer_size s = 0 then s
            else if recording s \<and> length (frame_buffer s) = buffer_size s then
              s\<lparr>frame_buffer := [frame],
                encoding_queue := encoding_queue s @
                  [Encode_frames (frame_buffer s) (current_recording_id s)]\<rparr>
            else if length (frame_buffer s) < buffer_size s then
              s\<lparr>frame_buffer := frame_buffer s @ [frame]\<rparr>
            else
              s\<lparr>frame_buffer := tl (frame_buffer s) @ [frame]\<rparr>)"
proof (cases "buffer_size s = 0")
  case True
  with assms have e: "frame_buffer s = []" by simp
  then have "s\<lparr>frame_buffer := []\<rparr> = s"
    by (metis recorder.surjective recorder.update_convs(4))
  with True e show ?thesis
    by (simp add: capture_frames_def deque_append_def put_def Let_def)
next
  case False
  with assms show ?thesis
    by (cases "frame_buffer s") (auto simp: capture_frames_def deque_append_def put_def Let_def)
qed

text \<open>Recording 0 with a full buffer of three frames reads a fourth.\<close>

theorem drain_on_full_witness:
  "length (frame_buffer ((new_recorder 1 :: nat recorder)
       \<lparr>recording := True, frame_buffer := [1, 2, 3], current_recording_id := Some 0\<rparr>))
     \<le> buffer_size ((new_recorder 1 :: nat recorder)
       \<lparr>recording := True, frame_buffer := [1, 2, 3], current_recording_id := Some 0\<rparr>) \<and>
   frame_buffer (capture_frames ((new_recorder 1 :: nat recorder)
       \<lparr>recording := True, frame_buffer := [1, 2, 3], current_recording_id := Some 0\<rparr>) (Some 4)) = [4] \<and>
   encoding_queue (capture_frames ((new_recorder 1 :: nat recorder)
       \<lparr>recording := True, frame_buffer := [1, 2, 3], current_recording_id := Some 0\<rparr>) (Some 4))
     = [Encode_frames [1, 2, 3] (Some 0)]"
  using drain_on_full [of "(new_recorder 1 :: nat recorder)
       \<lparr>recording := True, frame_buffer := [1, 2, 3], current_recording_id := Some 0\<rparr>" 4]
  by (simp add: new_recorder_def preroll_seconds_def)

text \<open>
  Without the proviso the statement fails. A recorder whose camera reports 0 frames a
  second is started: it is recording and its empty buffer has reached the capacity 0,
  yet reading frame 7 queues no task and leaves the buffer empty.
\<close>

theorem drain_on_full_counterexample:
  "recording (start_recording (new_recorder 0 :: nat recorder) sample_time) \<and>
   length (frame_buffer (start_recording (new_recorder 0 :: nat recorder) sample_time)) =
     buffer_size (start_recording (new_recorder 0 :: nat recorder) sample_time) \<and>
   encoding_queue (start_recording (new_recorder 0 :: nat recorder) sample_time) = [] \<and>
   encoding_queue
     (capture_frames (start_recording (new_recorder 0 :: nat recorder) sample_time) (Some 7)) = [] \<and>
   frame_buffer
     (capture_frames (start_recording (new_recorder 0 :: nat recorder) sample_time) (Some 7)) = []"
  by (simp add: start_recording_def start_flip_def start_register_def new_recorder_def
        capture_frames_def deque_append_def put_def print_line_def Let_def)

section \<open>Stopping\<close>

text \<open>
  C3. \<^verbatim>\<open>stop_recording\<close> returns the recorder unchanged when it is not recording.
  Otherwise, in its one step, it appends to the queue an \<open>Encode_frames\<close> task with the
  frames now in the buffer, if there are any, and then a \<open>Finalize_recording\<close> task, both
  for the recording that was current, and clears the flag and the current id. The
  buffer is not among the fields it changes.
\<close>

theorem stop_recording_effect:
  "stop_recording s =
     (if \<not> recording s then s
      else s\<lparr>video_out := video_out s @ [Stopping_recording],
             encoding_queue := encoding_queue s @
               (if frame_buffer s \<noteq> [] then
                  [Encode_frames (frame_buffer s) (current_recording_id s)]
                else []) @
               [Finalize_recording (current_recording_id s)],
             recording := False,
             current_recording_id := None\<rparr>)"
  by (simp add: stop_recording_def put_def print_line_def Let_def)

text \<open>Recording 0 is stopped with two frames in the buffer.\<close>

theorem stop_recording_effect_witness:
  "encoding_queue (stop_recording ((new_recorder 1 :: nat recorder)
       \<lparr>recording := True, frame_buffer := [1, 2], current_recording_id := Some 0\<rparr>))
     = [Encode_frames [1, 2] (Some 0), Finalize_recording (Some 0)] \<and>
   \<not> recording (stop_recording ((new_recorder 1 :: nat recorder)
       \<lparr>recording := True, frame_buffer := [1, 2], current_recording_id := Some 0\<rparr>)) \<and>
   current_recording_id (stop_recording ((new_recorder 1 :: nat recorder)
       \<lparr>recording := True, frame_buffer := [1, 2], current_recording_id := Some 0\<rparr>)) = None"
  using stop_recording_effect [of "(new_recorder 1 :: nat recorder)
       \<lparr>recording := True, frame_buffer := [1, 2], current_recording_id := Some 0\<rparr>"]
  by (simp add: new_recorder_def preroll_seconds_def)

section \<open>Starting\<close>

lemma start_recording_idle:
  "\<not> recording s \<Longrightarrow>
   start_recording s now =
     s\<lparr>video_out := video_out s @ [Starting_recording, Time_taken_to_start],
       next_recording_id := next_recording_id s + 1,
       active_recordings := (active_recordings s)
         (next_recording_id s \<mapsto> \<lparr>start_time = now, muxed = [], frame_count = 0\<rparr>),
       recording := True,
       current_recording_id := Some (next_recording_id s),
       frame_buffer := [],
       encoding_queue := encoding_queue s @
         (if frame_buffer s \<noteq> [] then
            [Encode_frames (frame_buffer s) (Some (next_recording_id s))]
          else [])\<rparr>"
  by (simp add: start_recording_def start_flip_def start_register_def put_def print_line_def Let_def)

lemma start_register_eq:
  "start_register s now =
     s\<lparr>video_out := video_out s @ [Starting_recording],
       next_recording_id := next_recording_id s + 1,
       active_recordings := (active_recordings s)
         (next_recording_id s \<mapsto> \<lparr>start_time = now, muxed = [], frame_count = 0\<rparr>)\<rparr>"
  by (simp add: start_register_def print_line_def Let_def)

lemma stop_recording_eq:
  "stop_recording s =
     (if \<not> recording s then s
      else s\<lparr>video_out := video_out s @ [Stopping_recording],
             encoding_queue := encoding_queue s @
               (if frame_buffer s \<noteq> [] then
                  [Encode_frames (frame_buffer s) (current_recording_id s)]
                else []) @
               [Finalize_recording (current_recording_id s)],
             recording := False,
             current_recording_id := None\<rparr>)"
  by (simp add: stop_recording_def put_def print_line_def Let_def)

text \<open>
  C2. \<^verbatim>\<open>start_recording\<close> returns the recorder unchanged while it is recording: no id is
  taken and nothing is queued. Otherwise it is the second locked region after the first.
  The first takes the id \<open>next_recording_id\<close>, advances the counter and registers the new
  entry with \<open>frame_count = 0\<close>, leaving the flag, the current id, the buffer and the queue
  as they were. The whole call then leaves the flag set, the new id current, the buffer
  empty and the frames it held as one \<open>Encode_frames\<close> task for the new id at the end of
  the queue, if there were any. Every other entry of \<^verbatim>\<open>active_recordings\<close> is untouched, the
  counter has grown, and in a state that satisfies \<open>recorder_invariant\<close> the new id is used
  neither by an entry nor by a queued task.
\<close>

theorem start_recording_effect:
  "(recording s \<longrightarrow> start_recording s now = s) \<and>
   (\<not> recording s \<longrightarrow>
      start_recording s now = start_flip (start_register s now) (next_recording_id s) \<and>
      \<not> recording (start_register s now) \<and>
      current_recording_id (start_register s now) = current_recording_id s \<and>
      frame_buffer (start_register s now) = frame_buffer s \<and>
      encoding_queue (start_register s now) = encoding_queue s \<and>
      active_recordings (start_register s now) (next_recording_id s) =
        Some \<lparr>start_time = now, muxed = [], frame_count = 0\<rparr> \<and>
      start_recording s now =
        s\<lparr>video_out := video_out s @ [Starting_recording, Time_taken_to_start],
          next_recording_id := next_recording_id s + 1,
          active_recordings := (active_recordings s)
            (next_recording_id s \<mapsto> \<lparr>start_time = now, muxed = [], frame_count = 0\<rparr>),
          recording := True,
          current_recording_id := Some (next_recording_id s),
          frame_buffer := [],
          encoding_queue := encoding_queue s @
            (if frame_buffer s \<noteq> [] then
               [Encode_frames (frame_buffer s) (Some (next_recording_id s))]
             else [])\<rparr> \<and>
      (\<forall>j. j \<noteq> next_recording_id s \<longrightarrow>
         active_recordings (start_recording s now) j = active_recordings s j) \<and>
      next_recording_id s < next_recording_id (start_recording s now) \<and>
      (recorder_invariant s \<longrightarrow>
         active_recordings s (next_recording_id s) = None \<and>
         (\<forall>t \<in> set (encoding_queue s). task_recording_id t \<noteq> Some (next_recording_id s))))"
proof (intro conjI impI)
  assume "recording s"
  then show "start_recording s now = s" by (simp add: start_recording_def)
next
  assume idle: "\<not> recording s"
  show "start_recording s now = start_flip (start_register s now) (next_recording_id s)"
    using idle by (simp add: start_recording_def)
  show "\<not> recording (start_register s now)"
    using idle by (simp add: start_register_eq)
  show "current_recording_id (start_register s now) = current_recording_id s"
    by (simp add: start_register_eq)
  show "frame_buffer (start_register s now) = frame_buffer s"
    by (simp add: start_register_eq)
  show "encoding_queue (start_register s now) = encoding_queue s"
    by (simp add: start_register_eq)
  show "active_recordings (start_register s now) (next_recording_id s) =
        Some \<lparr>start_time = now, muxed = [], frame_count = 0\<rparr>"
    by (simp add: start_register_eq)
  show "start_recording s now =
        s\<lparr>video_out := video_out s @ [Starting_recording, Time_taken_to_start],
          next_recording_id := next_recording_id s + 1,
          active_recordings := (active_recordings s)
            (next_recording_id s \<mapsto> \<lparr>start_time = now, muxed = [], frame_count = 0\<rparr>),
          recording := True,
          current_recording_id := Some (next_recording_id s),
          frame_buffer := [],
          encoding_queue := encoding_queue s @
            (if frame_buffer s \<noteq> [] then
               [Encode_frames (frame_buffer s) (Some (next_recording_id s))]
             else [])\<rparr>"
    using idle by (rule start_recording_idle)
  show "\<forall>j. j \<noteq> next_recording_id s \<longrightarrow>
         active_recordings (start_recording s now) j = active_recordings s j"
    using idle by (simp add: start_recording_idle)
  show "next_recording_id s < next_recording_id (start_recording s now)"
    using idle by (simp add: start_recording_idle)
next
  assume "recorder_invariant s"
  then show "active_recordings s (next_recording_id s) = None"
    unfolding recorder_invariant_def by (metis less_irrefl)
next
  assume inv: "recorder_invariant s"
  show "\<forall>t \<in> set (encoding_queue s). task_recording_id t \<noteq> Some (next_recording_id s)"
  proof
    fix t assume "t \<in> set (encoding_queue s)"
    with inv have "\<forall>i. task_recording_id t = Some i \<longrightarrow> i < next_recording_id s"
      unfolding recorder_invariant_def by blast
    then show "task_recording_id t \<noteq> Some (next_recording_id s)" by auto
  qed
qed

text \<open>A fresh recorder with two buffered frames is started.\<close>

theorem start_recording_effect_witness:
  "\<not> recording ((new_recorder 1 :: nat recorder)\<lparr>frame_buffer := [1, 2]\<rparr>) \<and>
   recording (start_recording ((new_recorder 1 :: nat recorder)\<lparr>frame_buffer := [1, 2]\<rparr>) sample_time) \<and>
   current_recording_id
     (start_recording ((new_recorder 1 :: nat recorder)\<lparr>frame_buffer := [1, 2]\<rparr>) sample_time) = Some 0 \<and>
   frame_buffer
     (start_recording ((new_recorder 1 :: nat recorder)\<lparr>frame_buffer := [1, 2]\<rparr>) sample_time) = [] \<and>
   encoding_queue
     (start_recording ((new_recorder 1 :: nat recorder)\<lparr>frame_buffer := [1, 2]\<rparr>) sample_time)
     = [Encode_frames [1, 2] (Some 0)] \<and>
   next_recording_id
     (start_recording ((new_recorder 1 :: nat recorder)\<lparr>frame_buffer := [1, 2]\<rparr>) sample_time) = 1"
proof -
  let ?s = "(new_recorder 1 :: nat recorder)\<lparr>frame_buffer := [1, 2]\<rparr>"
  have idle: "\<not> recording ?s" by (simp add: new_recorder_def)
  from start_recording_effect [of ?s sample_time] idle
  have "start_recording ?s sample_time =
        ?s\<lparr>video_out := video_out ?s @ [Starting_recording, Time_taken_to_start],
          next_recording_id := next_recording_id ?s + 1,
          active_recordings := (active_recordings ?s)
            (next_recording_id ?s \<mapsto> \<lparr>start_time = sample_time, muxed = [], frame_count = 0\<rparr>),
          recording := True,
          current_recording_id := Some (next_recording_id ?s),
          frame_buffer := [],
          encoding_queue := encoding_queue ?s @
            (if frame_buffer ?s \<noteq> [] then
               [Encode_frames (frame_buffer ?s) (Some (next_recording_id ?s))]
             else [])\<rparr>"
    by blast
  then show ?thesis
    by (simp add: new_recorder_def)
qed

section \<open>The encoding worker\<close>

lemma stamp_append:
  "stamp f fc (xs @ ys) = stamp f fc xs @ stamp f (fc + length xs) ys"
  by (rule nth_equalityI) (auto simp: stamp_def nth_enumerate_eq nth_append)



lemma length_stamp: "length (stamp f fc frames) = length frames"
  by (simp add: stamp_def)


lemma encode_frames_not_found:
  "frames \<noteq> [] \<Longrightarrow> lookup_recording s recording_id = None \<Longrightarrow>
   encode_frames s frames recording_id fault =
     s\<lparr>video_out := video_out s @
         [Encoding_frames (length frames) recording_id, Recording_not_found recording_id]\<rparr>"
  by (cases recording_id) (simp_all add: encode_frames_def print_line_def Let_def)


lemma encode_frames_raises:
  "frames \<noteq> [] \<Longrightarrow> active_recordings s rid = Some d \<Longrightarrow> i < length frames \<Longrightarrow>
   (fps s = 0 \<and> i = 0) \<or> (0 < fps s \<and> fault = Some i) \<Longrightarrow>
   encode_frames s frames (Some rid) fault =
     s\<lparr>video_out := video_out s @
         [Encoding_frames (length frames) (Some rid), Error_encoding_frames],
       active_recordings := (active_recordings s)
         (rid \<mapsto> d\<lparr>muxed := muxed d @ take i (stamp (fps s) (frame_count d) frames)\<rparr>)\<rparr>"
  by (auto simp: encode_frames_def print_line_def Let_def length_stamp)

lemma finalize_recording_not_found:
  "lookup_recording s recording_id = None \<Longrightarrow>
   finalize_recording s recording_id fault =
     s\<lparr>video_out := video_out s @ [Recording_not_found recording_id]\<rparr>"
  by (simp add: finalize_recording_def print_line_def)

lemma finalize_recording_found:
  "active_recordings s rid = Some d \<Longrightarrow>
   finalize_recording s (Some rid) fault =
     (if fault then
        s\<lparr>active_recordings := (active_recordings s)(rid := None),
          video_out := video_out s @ [Error_finalizing (Some rid)]\<rparr>
      else
        s\<lparr>active_recordings := (active_recordings s)(rid := None),
          files := (files s)(video_file (start_time d) \<mapsto> muxed d),
          video_out := video_out s @
            [Recording_saved (video_file (start_time d)) (frame_count d)]\<rparr>)"
  by (simp add: finalize_recording_def print_line_def Let_def)

lemma encoding_worker_encode:
  "encoding_queue s = Encode_frames frames recording_id # rest \<Longrightarrow>
   encoding_worker s fault = encode_frames (s\<lparr>encoding_queue := rest\<rparr>) frames recording_id fault"
  by (simp add: encoding_worker_def)

lemma encoding_worker_finalize:
  "encoding_queue s = Finalize_recording recording_id # rest \<Longrightarrow>
   encoding_worker s fault = finalize_recording (s\<lparr>encoding_queue := rest\<rparr>) recording_id (fault \<noteq> None)"
  by (simp add: encoding_worker_def)

lemma encode_frames_queue [simp]:
  "encoding_queue (encode_frames s frames recording_id fault) = encoding_queue s"
  by (cases recording_id)
     (auto simp: encode_frames_def print_line_def Let_def split: option.splits)

lemma finalize_recording_queue [simp]:
  "encoding_queue (finalize_recording s recording_id fault) = encoding_queue s"
  by (cases recording_id)
     (auto simp: finalize_recording_def print_line_def Let_def split: option.splits)


text \<open>
  C8. For a non-empty batch. If the recording id is not in \<^verbatim>\<open>active_recordings\<close>,
  \<^verbatim>\<open>_encode_frames\<close> prints two lines and changes nothing else. If the recording is there
  and the encoder raises at frame \<open>i\<close> of the batch (or the frame rate is 0, which raises
  at the first frame), the handler prints the error and returns: the frames before \<open>i\<close>
  are in the container, and the entry's \<open>frame_count\<close> is what it was. In the worker loop
  the task has left the queue either way, and the loop goes on with the remaining tasks
  from the state the batch left.
\<close>

theorem encode_error_containment:
  assumes "frames \<noteq> []"
  shows "(lookup_recording s recording_id = None \<longrightarrow>
            encode_frames s frames recording_id fault =
              s\<lparr>video_out := video_out s @
                  [Encoding_frames (length frames) recording_id,
                   Recording_not_found recording_id]\<rparr>) \<and>
         (\<forall>rid d i.
            active_recordings s rid = Some d \<and> i < length frames \<and>
            ((fps s = 0 \<and> i = 0) \<or> (0 < fps s \<and> fault = Some i)) \<longrightarrow>
            encode_frames s frames (Some rid) fault =
              s\<lparr>video_out := video_out s @
                  [Encoding_frames (length frames) (Some rid), Error_encoding_frames],
                active_recordings := (active_recordings s)
                  (rid \<mapsto> d\<lparr>muxed := muxed d @ take i (stamp (fps s) (frame_count d) frames)\<rparr>)\<rparr> \<and>
            map_option frame_count (active_recordings (encode_frames s frames (Some rid) fault) rid)
              = Some (frame_count d)) \<and>
         (\<forall>rest. encoding_queue s = Encode_frames frames recording_id # rest \<longrightarrow>
            encoding_worker s fault =
              encode_frames (s\<lparr>encoding_queue := rest\<rparr>) frames recording_id fault \<and>
            encoding_queue (encoding_worker s fault) = rest \<and>
            encoding_worker_all s (fault # faults) =
              encoding_worker_all
                (encode_frames (s\<lparr>encoding_queue := rest\<rparr>) frames recording_id fault) faults)"
proof (intro conjI allI impI)
  assume "lookup_recording s recording_id = None"
  with assms show "encode_frames s frames recording_id fault =
      s\<lparr>video_out := video_out s @
          [Encoding_frames (length frames) recording_id, Recording_not_found recording_id]\<rparr>"
    by (rule encode_frames_not_found)
next
  fix rid d i
  assume h: "active_recordings s rid = Some d \<and> i < length frames \<and>
            ((fps s = 0 \<and> i = 0) \<or> (0 < fps s \<and> fault = Some i))"
  then show e: "encode_frames s frames (Some rid) fault =
      s\<lparr>video_out := video_out s @
          [Encoding_frames (length frames) (Some rid), Error_encoding_frames],
        active_recordings := (active_recordings s)
          (rid \<mapsto> d\<lparr>muxed := muxed d @ take i (stamp (fps s) (frame_count d) frames)\<rparr>)\<rparr>"
    using assms encode_frames_raises [of frames s rid d i fault] by blast
  show "map_option frame_count (active_recordings (encode_frames s frames (Some rid) fault) rid)
          = Some (frame_count d)"
    unfolding e by simp
next
  fix rest
  assume q: "encoding_queue s = Encode_frames frames recording_id # rest"
  then show w: "encoding_worker s fault =
      encode_frames (s\<lparr>encoding_queue := rest\<rparr>) frames recording_id fault"
    by (rule encoding_worker_encode)
  show "encoding_queue (encoding_worker s fault) = rest"
    unfolding w by simp
  show "encoding_worker_all s (fault # faults) =
      encoding_worker_all (encode_frames (s\<lparr>encoding_queue := rest\<rparr>) frames recording_id fault) faults"
    using w by simp
qed

text \<open>
  Two batches for recording 0; the encoder raises at the second frame of the first. The
  frame count stays 0, and the second batch is then encoded and counted.
\<close>

theorem encode_error_containment_witness:
  "[1, 2 :: nat] \<noteq> [] \<and>
   map_option frame_count (active_recordings
     (encoding_worker_all
        ((new_recorder 1 :: nat recorder)
           \<lparr>active_recordings := [0 \<mapsto> \<lparr>start_time = sample_time, muxed = [], frame_count = 0\<rparr>],
            encoding_queue := [Encode_frames [1, 2] (Some 0), Encode_frames [3] (Some 0)]\<rparr>)
        [Some 1]) 0) = Some 0 \<and>
   map_option frame_count (active_recordings
     (encoding_worker_all
        ((new_recorder 1 :: nat recorder)
           \<lparr>active_recordings := [0 \<mapsto> \<lparr>start_time = sample_time, muxed = [], frame_count = 0\<rparr>],
            encoding_queue := [Encode_frames [1, 2] (Some 0), Encode_frames [3] (Some 0)]\<rparr>)
        [Some 1, None]) 0) = Some 1"
proof -
  let ?d = "\<lparr>start_time = sample_time, muxed = ([] :: nat av_frame list), frame_count = 0\<rparr>"
  let ?s = "(new_recorder 1 :: nat recorder)
           \<lparr>active_recordings := [0 \<mapsto> ?d],
            encoding_queue := [Encode_frames [1, 2] (Some 0), Encode_frames [3] (Some 0)]\<rparr>"
  let ?t = "?s\<lparr>encoding_queue := [Encode_frames [3] (Some 0)]\<rparr>"
  have h: "[1, 2 :: nat] \<noteq> []" by simp
  note c = encode_error_containment [OF h, of ?t "Some 0" "Some 1"]
  note w = encode_error_containment [OF h, of ?s "Some 0" "Some 1"]
  have fps: "fps ?t = 1" by (simp add: new_recorder_def)
  from c have "active_recordings ?t 0 = Some ?d \<and> 1 < length [1, 2 :: nat] \<and>
            ((fps ?t = 0 \<and> (1 :: nat) = 0) \<or> (0 < fps ?t \<and> Some 1 = Some (1 :: nat))) \<longrightarrow>
      encode_frames ?t [1, 2] (Some 0) (Some 1) =
      ?t\<lparr>video_out := video_out ?t @ [Encoding_frames (length [1, 2 :: nat]) (Some 0), Error_encoding_frames],
         active_recordings := (active_recordings ?t)
           (0 \<mapsto> ?d\<lparr>muxed := muxed ?d @ take 1 (stamp (fps ?t) (frame_count ?d) [1, 2])\<rparr>)\<rparr> \<and>
      map_option frame_count (active_recordings (encode_frames ?t [1, 2] (Some 0) (Some 1)) 0)
              = Some (frame_count ?d)"
    by blast
  then have e: "encode_frames ?t [1, 2] (Some 0) (Some 1) =
      ?t\<lparr>video_out := video_out ?t @ [Encoding_frames (length [1, 2 :: nat]) (Some 0), Error_encoding_frames],
         active_recordings := (active_recordings ?t)
           (0 \<mapsto> ?d\<lparr>muxed := muxed ?d @ take 1 (stamp (fps ?t) (frame_count ?d) [1, 2])\<rparr>)\<rparr>"
    using fps by simp
  from w [of "[]"] have "encoding_queue ?s = Encode_frames [1, 2] (Some 0) # [Encode_frames [3] (Some 0)] \<longrightarrow>
      encoding_worker_all ?s [Some 1] =
        encoding_worker_all (encode_frames (?s\<lparr>encoding_queue := [Encode_frames [3] (Some 0)]\<rparr>) [1, 2] (Some 0) (Some 1)) []"
    by blast
  then have w1: "encoding_worker_all ?s [Some 1] = encode_frames ?t [1, 2] (Some 0) (Some 1)"
    by simp
  from w [of "[None]"] have "encoding_queue ?s = Encode_frames [1, 2] (Some 0) # [Encode_frames [3] (Some 0)] \<longrightarrow>
      encoding_worker_all ?s [Some 1, None] =
        encoding_worker_all (encode_frames (?s\<lparr>encoding_queue := [Encode_frames [3] (Some 0)]\<rparr>) [1, 2] (Some 0) (Some 1)) [None]"
    by blast
  then have w2: "encoding_worker_all ?s [Some 1, None] =
      encoding_worker_all (encode_frames ?t [1, 2] (Some 0) (Some 1)) [None]"
    by simp
  have 1: "map_option frame_count (active_recordings (encoding_worker_all ?s [Some 1]) 0) = Some 0"
    unfolding w1 e by simp
  have 2: "map_option frame_count (active_recordings (encoding_worker_all ?s [Some 1, None]) 0) = Some 1"
    unfolding w2 e
    by (simp add: encoding_worker_def encode_frames_def print_line_def Let_def new_recorder_def length_stamp)
  show ?thesis using h 1 2 by blast
qed

section \<open>Finalisation\<close>

lemma of_char_digit_char: "d < 10 \<Longrightarrow> (of_char (digit_char d) :: nat) = 48 + d"
  by (simp add: digit_char_def)

lemma is_digit_digit_char: "d < 10 \<Longrightarrow> is_digit (digit_char d)"
  by (simp add: is_digit_def of_char_digit_char)

lemma digit_value_digit_char: "d < 10 \<Longrightarrow> digit_value (digit_char d) = d"
  by (simp add: digit_value_def of_char_digit_char)

lemma decimal_digits: "c \<in> set (decimal n) \<Longrightarrow> is_digit c"
proof (induction n arbitrary: c rule: decimal.induct)
  case (1 n)
  show ?case
  proof (cases "n < 10")
    case True
    with "1.prems" show ?thesis
      by (simp add: decimal.simps [of n] is_digit_digit_char)
  next
    case False
    with "1.prems" have "c \<in> set (decimal (n div 10)) \<or> c = digit_char (n mod 10)"
      by (auto simp: decimal.simps [of n])
    then show ?thesis
      using "1.IH" [OF False] by (auto simp: is_digit_digit_char)
  qed
qed

lemma read_decimal_snoc: "read_decimal (cs @ [c]) = 10 * read_decimal cs + digit_value c"
  by (simp add: read_decimal_def)

lemma read_decimal_decimal: "read_decimal (decimal n) = n"
proof (induction n rule: decimal.induct)
  case (1 n)
  show ?case
  proof (cases "n < 10")
    case True
    then show ?thesis
      by (simp add: decimal.simps [of n] read_decimal_def digit_value_digit_char)
  next
    case False
    then show ?thesis
      using "1.IH" [OF False]
      by (simp add: decimal.simps [of n] read_decimal_snoc digit_value_digit_char)
  qed
qed

lemma foldl_zeros:
  "foldl (\<lambda>acc c. 10 * acc + digit_value c) 0 (replicate k (CHR ''0'')) = 0"
  by (induction k) (simp_all add: digit_value_def)

lemma read_decimal_zero_padded: "read_decimal (zero_padded w n) = n"
  using read_decimal_decimal [of n]
  by (simp add: zero_padded_def read_decimal_def foldl_zeros)

lemma length_decimal_le: "0 < k \<Longrightarrow> n < 10 ^ k \<Longrightarrow> length (decimal n) \<le> k"
proof (induction k arbitrary: n)
  case 0
  then show ?case by simp
next
  case (Suc k)
  show ?case
  proof (cases "n < 10")
    case True
    then show ?thesis by (simp add: decimal.simps [of n])
  next
    case False
    with Suc.prems have k: "0 < k" by (cases k) auto
    have "n div 10 < 10 ^ k"
      using Suc.prems by (simp add: less_mult_imp_div_less mult.commute)
    then have "length (decimal (n div 10)) \<le> k"
      using Suc.IH k by blast
    with False show ?thesis by (simp add: decimal.simps [of n])
  qed
qed

lemma length_zero_padded: "0 < w \<Longrightarrow> n < 10 ^ w \<Longrightarrow> length (zero_padded w n) = w"
  using length_decimal_le [of w n] by (simp add: zero_padded_def)

lemma is_digit_zero: "is_digit (CHR ''0'')"
  by (simp add: is_digit_def)

lemma zero_padded_digits: "c \<in> set (zero_padded w n) \<Longrightarrow> is_digit c"
  by (auto simp: zero_padded_def decimal_digits is_digit_zero)

lemma field_ok_zero_padded: "0 < w \<Longrightarrow> n < 10 ^ w \<Longrightarrow> field_ok w n (zero_padded w n)"
  by (simp add: field_ok_def length_zero_padded read_decimal_zero_padded list_all_iff zero_padded_digits)

lemma video_file_shape:
  assumes "valid_datetime t"
  shows "\<exists>Y Mo D H Mi S.
           video_file t = video_recordings_dir @ ''/'' @ ''110bpm'' @ ''---'' @ Y @ ''-'' @ Mo @ ''-'' @ D
                            @ ''---'' @ H @ ''-'' @ Mi @ ''-'' @ S @ ''.mp4'' \<and>
           field_ok 4 (year t) Y \<and> field_ok 2 (month t) Mo \<and> field_ok 2 (day t) D \<and>
           field_ok 2 (hour t) H \<and> field_ok 2 (minute t) Mi \<and> field_ok 2 (second t) S"
proof -
  have "field_ok 4 (year t) (zero_padded 4 (year t))"
    "field_ok 2 (month t) (zero_padded 2 (month t))"
    "field_ok 2 (day t) (zero_padded 2 (day t))"
    "field_ok 2 (hour t) (zero_padded 2 (hour t))"
    "field_ok 2 (minute t) (zero_padded 2 (minute t))"
    "field_ok 2 (second t) (zero_padded 2 (second t))"
    using assms by (simp_all add: valid_datetime_def field_ok_zero_padded)
  moreover have "video_file t = video_recordings_dir @ ''/'' @ ''110bpm'' @ ''---''
      @ zero_padded 4 (year t) @ ''-'' @ zero_padded 2 (month t) @ ''-'' @ zero_padded 2 (day t)
      @ ''---'' @ zero_padded 2 (hour t) @ ''-'' @ zero_padded 2 (minute t) @ ''-''
      @ zero_padded 2 (second t) @ ''.mp4''"
    by (simp add: video_file_def strftime_def)
  ultimately show ?thesis by blast
qed

text \<open>
  C9. For a recording that is in \<^verbatim>\<open>active_recordings\<close>, started at a valid wall-clock
  time. \<^verbatim>\<open>_finalize_recording\<close> removes the entry whether or not flushing, closing or writing
  raises. If it raises, the error line is printed and nothing else changes (the queue
  too: no retry). If not, the container is written to \<open>video_file\<close> of the start time. A
  second finalisation of the same id finds no entry and only prints. In the worker loop
  the task leaves the queue in both cases. The file name is the output directory, a
  slash, the tag, and the start time as four digits for the year and two for each other
  field, separated as in \<^verbatim>\<open>110bpm---YYYY-MM-DD---HH-MM-SS.mp4\<close>.
\<close>

theorem finalize_semantics:
  assumes "active_recordings s rid = Some d" and "valid_datetime (start_time d)"
  shows "active_recordings (finalize_recording s (Some rid) fault) rid = None \<and>
         finalize_recording s (Some rid) fault =
           (if fault then
              s\<lparr>active_recordings := (active_recordings s)(rid := None),
                video_out := video_out s @ [Error_finalizing (Some rid)]\<rparr>
            else
              s\<lparr>active_recordings := (active_recordings s)(rid := None),
                files := (files s)(video_file (start_time d) \<mapsto> muxed d),
                video_out := video_out s @
                  [Recording_saved (video_file (start_time d)) (frame_count d)]\<rparr>) \<and>
         finalize_recording (finalize_recording s (Some rid) fault) (Some rid) fault' =
           (finalize_recording s (Some rid) fault)
             \<lparr>video_out := video_out (finalize_recording s (Some rid) fault) @
                 [Recording_not_found (Some rid)]\<rparr> \<and>
         (\<forall>rest. encoding_queue s = Finalize_recording (Some rid) # rest \<longrightarrow>
            encoding_worker s worker_fault =
              finalize_recording (s\<lparr>encoding_queue := rest\<rparr>) (Some rid) (worker_fault \<noteq> None) \<and>
            encoding_queue (encoding_worker s worker_fault) = rest) \<and>
         (\<exists>Y Mo D H Mi S.
            video_file (start_time d) =
              video_recordings_dir @ ''/'' @ ''110bpm'' @ ''---'' @ Y @ ''-'' @ Mo @ ''-'' @ D
                @ ''---'' @ H @ ''-'' @ Mi @ ''-'' @ S @ ''.mp4'' \<and>
            field_ok 4 (year (start_time d)) Y \<and> field_ok 2 (month (start_time d)) Mo \<and>
            field_ok 2 (day (start_time d)) D \<and> field_ok 2 (hour (start_time d)) H \<and>
            field_ok 2 (minute (start_time d)) Mi \<and> field_ok 2 (second (start_time d)) S)"
proof -
  have gone: "active_recordings (finalize_recording s (Some rid) fault) rid = None"
    using assms(1) by (simp add: finalize_recording_found)
  have again: "finalize_recording (finalize_recording s (Some rid) fault) (Some rid) fault' =
      (finalize_recording s (Some rid) fault)
        \<lparr>video_out := video_out (finalize_recording s (Some rid) fault) @
            [Recording_not_found (Some rid)]\<rparr>"
    by (rule finalize_recording_not_found) (simp add: gone)
  have worker: "\<forall>rest. encoding_queue s = Finalize_recording (Some rid) # rest \<longrightarrow>
      encoding_worker s worker_fault =
        finalize_recording (s\<lparr>encoding_queue := rest\<rparr>) (Some rid) (worker_fault \<noteq> None) \<and>
      encoding_queue (encoding_worker s worker_fault) = rest"
    by (simp add: encoding_worker_finalize)
  show ?thesis
    using gone again worker finalize_recording_found [OF assms(1), of fault]
      video_file_shape [OF assms(2)]
    by (intro conjI) assumption+
qed

text \<open>A recording started at the sample time is finalised, with and without a fault.\<close>

theorem finalize_semantics_witness:
  "active_recordings ((new_recorder 1 :: nat recorder)
      \<lparr>active_recordings := [0 \<mapsto> \<lparr>start_time = sample_time, muxed = [], frame_count = 0\<rparr>]\<rparr>) 0
     = Some \<lparr>start_time = sample_time, muxed = [], frame_count = 0\<rparr> \<and>
   valid_datetime (start_time \<lparr>start_time = sample_time, muxed = ([] :: nat av_frame list), frame_count = 0\<rparr>) \<and>
   active_recordings (finalize_recording ((new_recorder 1 :: nat recorder)
      \<lparr>active_recordings := [0 \<mapsto> \<lparr>start_time = sample_time, muxed = [], frame_count = 0\<rparr>]\<rparr>)
      (Some 0) True) 0 = None \<and>
   files (finalize_recording ((new_recorder 1 :: nat recorder)
      \<lparr>active_recordings := [0 \<mapsto> \<lparr>start_time = sample_time, muxed = [], frame_count = 0\<rparr>]\<rparr>)
      (Some 0) False)
      ''C:/Users/shayan/Desktop/piano/video_recordings/110bpm---2025-03-09---07-05-00.mp4'' = Some []"
proof -
  let ?d = "\<lparr>start_time = sample_time, muxed = ([] :: nat av_frame list), frame_count = 0\<rparr>"
  let ?s = "(new_recorder 1 :: nat recorder)\<lparr>active_recordings := [0 \<mapsto> ?d]\<rparr>"
  have h1: "active_recordings ?s 0 = Some ?d" by simp
  have h2: "valid_datetime (start_time ?d)" by (simp add: valid_datetime_def)
  have name: "video_file sample_time =
      ''C:/Users/shayan/Desktop/piano/video_recordings/110bpm---2025-03-09---07-05-00.mp4''"
    by code_simp
  from finalize_semantics [OF h1 h2, of True]
  have a: "active_recordings (finalize_recording ?s (Some 0) True) 0 = None" by blast
  from finalize_semantics [OF h1 h2, of False]
  have "finalize_recording ?s (Some 0) False =
          ?s\<lparr>active_recordings := (active_recordings ?s)(0 := None),
             files := (files ?s)(video_file (start_time ?d) \<mapsto> muxed ?d),
             video_out := video_out ?s @
               [Recording_saved (video_file (start_time ?d)) (frame_count ?d)]\<rparr>"
    by simp
  then have b: "files (finalize_recording ?s (Some 0) False)
      ''C:/Users/shayan/Desktop/piano/video_recordings/110bpm---2025-03-09---07-05-00.mp4'' = Some []"
    by (simp add: name)
  show ?thesis using h1 h2 a b by blast
qed

section \<open>A start after a stop\<close>



section \<open>The stop decision\<close>

lemma drain_events_eq: "drain_events m = m\<lparr>note_event_occurred := False\<rparr>"
proof (cases "note_event_occurred m")
  case True
  then have "drain_events m = drain_events (m\<lparr>note_event_occurred := False\<rparr>)"
    by (simp add: drain_events.simps [of m] check_and_clear_event_def)
  also have "\<dots> = m\<lparr>note_event_occurred := False\<rparr>"
    by (simp add: drain_events.simps [of "m\<lparr>note_event_occurred := False\<rparr>"] check_and_clear_event_def)
  finally show ?thesis .
next
  case False
  then have "m\<lparr>note_event_occurred := False\<rparr> = m" by simp
  with False show ?thesis
    by (simp add: drain_events.simps [of m] check_and_clear_event_def)
qed

lemma check_and_clear_event_eq:
  "check_and_clear_event m = (note_event_occurred m, m\<lparr>note_event_occurred := False\<rparr>)"
  by (cases "note_event_occurred m") (simp_all add: check_and_clear_event_def)

text \<open>
  C7, amended. While the device is marked connected, a pass of the main loop first
  consumes the activity flag and starts a recording if the flag was set and none is
  running; it then calls \<^verbatim>\<open>stop_recording\<close> exactly when the recorder is recording at the
  stop test, the pedal is not pressed, and \<open>last_event_time\<close> is set and more than 7
  seconds before \<open>now\<close> (a time stamp is never 0.0, which the code would take for unset).
  After the stop the drain loop clears the activity flag, also when a message that sets
  it arrived while \<^verbatim>\<open>stop_recording\<close> ran, so the next pass finds no flag and changes
  nothing: the stale pulse starts no recording. While the device is marked disconnected
  the pass changes nothing: there is no stop. A stop of a recording recorder is visible:
  the flag is cleared.
\<close>

theorem stop_decision:
  assumes "last_event_time m \<noteq> Some 0"
  shows "main_loop device_connected start_now now during_stop (m, v) =
     (if \<not> device_connected then (m, v)
      else
        (let v1 = (if note_event_occurred m \<and> \<not> recording v then start_recording v start_now
                   else v)
         in if recording v1 \<and> \<not> pedal_pressed m \<and>
               (case last_event_time m of None \<Rightarrow> False | Some t \<Rightarrow> now - t > 7)
            then ((deliver (m\<lparr>note_event_occurred := False\<rparr>) during_stop)
                    \<lparr>note_event_occurred := False\<rparr>,
                  stop_recording v1)
            else (m\<lparr>note_event_occurred := False\<rparr>, v1))) \<and>
   (recording v \<longrightarrow> stop_recording v \<noteq> v \<and> \<not> recording (stop_recording v)) \<and>
   (device_connected \<and>
    recording (if note_event_occurred m \<and> \<not> recording v then start_recording v start_now else v) \<and>
    \<not> pedal_pressed m \<and>
    (case last_event_time m of None \<Rightarrow> False | Some t \<Rightarrow> now - t > 7) \<longrightarrow>
      \<not> note_event_occurred
          (fst (main_loop device_connected start_now now during_stop (m, v))) \<and>
      main_loop connected_next start_next now_next during_next
          (main_loop device_connected start_now now during_stop (m, v)) =
        main_loop device_connected start_now now during_stop (m, v))"
proof -
  let ?v1 = "if note_event_occurred m \<and> \<not> recording v then start_recording v start_now else v"
  let ?stop = "recording ?v1 \<and> \<not> pedal_pressed m \<and>
               (case last_event_time m of None \<Rightarrow> False | Some t \<Rightarrow> now - t > 7)"
  have 1: "main_loop device_connected start_now now during_stop (m, v) =
     (if \<not> device_connected then (m, v)
      else
        (let v1 = ?v1
         in if recording v1 \<and> \<not> pedal_pressed m \<and>
               (case last_event_time m of None \<Rightarrow> False | Some t \<Rightarrow> now - t > 7)
            then ((deliver (m\<lparr>note_event_occurred := False\<rparr>) during_stop)
                    \<lparr>note_event_occurred := False\<rparr>,
                  stop_recording v1)
            else (m\<lparr>note_event_occurred := False\<rparr>, v1)))"
    using assms
    by (cases "last_event_time m")
       (simp_all add: main_loop_def check_and_clear_event_eq drain_events_eq Let_def)
  have 2: "recording v \<longrightarrow> stop_recording v \<noteq> v \<and> \<not> recording (stop_recording v)"
  proof
    assume r: "recording v"
    then have n: "\<not> recording (stop_recording v)" by (simp add: stop_recording_eq)
    with r show "stop_recording v \<noteq> v \<and> \<not> recording (stop_recording v)" by auto
  qed
  have 3: "device_connected \<and> ?stop \<longrightarrow>
      \<not> note_event_occurred
          (fst (main_loop device_connected start_now now during_stop (m, v))) \<and>
      main_loop connected_next start_next now_next during_next
          (main_loop device_connected start_now now during_stop (m, v)) =
        main_loop device_connected start_now now during_stop (m, v)"
  proof
    assume h: "device_connected \<and> ?stop"
    let ?m2 = "(deliver (m\<lparr>note_event_occurred := False\<rparr>) during_stop)\<lparr>note_event_occurred := False\<rparr>"
    from h 1 have r: "main_loop device_connected start_now now during_stop (m, v) =
        (?m2, stop_recording ?v1)"
      by (simp add: Let_def)
    from h have n: "\<not> recording (stop_recording ?v1)" by (simp add: stop_recording_eq)
    have "main_loop connected_next start_next now_next during_next (?m2, stop_recording ?v1) =
          (?m2, stop_recording ?v1)"
      using n by (simp add: main_loop_def check_and_clear_event_def)
    then show "\<not> note_event_occurred
          (fst (main_loop device_connected start_now now during_stop (m, v))) \<and>
      main_loop connected_next start_next now_next during_next
          (main_loop device_connected start_now now during_stop (m, v)) =
        main_loop device_connected start_now now during_stop (m, v)"
      unfolding r by simp
  qed
  show ?thesis using 1 2 3 by (intro conjI)
qed

text \<open>
  The claim as stated fails while the device is marked disconnected: the recorder is
  recording, the pedal is up and the last event is 9 seconds old, and the pass leaves
  the recorder recording with nothing queued.
\<close>

theorem stop_decision_counterexample:
  "recording ((new_recorder 1 :: nat recorder)
      \<lparr>recording := True, next_recording_id := 1, current_recording_id := Some 0\<rparr>) \<and>
   \<not> pedal_pressed (new_midi_listener\<lparr>last_event_time := Some 1\<rparr>) \<and>
   last_event_time (new_midi_listener\<lparr>last_event_time := Some 1\<rparr>) = Some 1 \<and>
   (10 :: real) - 1 > 7 \<and>
   main_loop False sample_time 10 []
     (new_midi_listener\<lparr>last_event_time := Some 1\<rparr>,
      (new_recorder 1 :: nat recorder)
        \<lparr>recording := True, next_recording_id := 1, current_recording_id := Some 0\<rparr>) =
     (new_midi_listener\<lparr>last_event_time := Some 1\<rparr>,
      (new_recorder 1 :: nat recorder)
        \<lparr>recording := True, next_recording_id := 1, current_recording_id := Some 0\<rparr>) \<and>
   recording (snd (main_loop False sample_time 10 []
     (new_midi_listener\<lparr>last_event_time := Some 1\<rparr>,
      (new_recorder 1 :: nat recorder)
        \<lparr>recording := True, next_recording_id := 1, current_recording_id := Some 0\<rparr>))) \<and>
   encoding_queue (snd (main_loop False sample_time 10 []
     (new_midi_listener\<lparr>last_event_time := Some 1\<rparr>,
      (new_recorder 1 :: nat recorder)
        \<lparr>recording := True, next_recording_id := 1, current_recording_id := Some 0\<rparr>))) = []"
  by (simp add: main_loop_def new_midi_listener_def new_recorder_def)

text \<open>
  Connected, the same state is stopped at time 10 while a note-on arrives during the
  stop: delivered alone it sets the flag, but the pass ends with the flag clear and the
  pass after it changes nothing. At time 7 the recorder is left alone.
\<close>

theorem stop_decision_witness:
  "last_event_time (new_midi_listener\<lparr>last_event_time := Some 1\<rparr>) \<noteq> Some 0 \<and>
   note_event_occurred
     (deliver (new_midi_listener\<lparr>last_event_time := Some 1\<rparr>) [(9, [144, 60, 100])]) \<and>
   main_loop True sample_time 10 [(9, [144, 60, 100])]
     (new_midi_listener\<lparr>last_event_time := Some 1\<rparr>,
      (new_recorder 1 :: nat recorder)
        \<lparr>recording := True, next_recording_id := 1, current_recording_id := Some 0\<rparr>) =
     (new_midi_listener\<lparr>last_event_time := Some 9\<rparr>,
      (new_recorder 1 :: nat recorder)
        \<lparr>encoding_queue := [Finalize_recording (Some 0)], next_recording_id := 1,
         video_out := [Stopping_recording]\<rparr>) \<and>
   main_loop True sample_time 11 []
     (main_loop True sample_time 10 [(9, [144, 60, 100])]
        (new_midi_listener\<lparr>last_event_time := Some 1\<rparr>,
         (new_recorder 1 :: nat recorder)
           \<lparr>recording := True, next_recording_id := 1, current_recording_id := Some 0\<rparr>)) =
     (new_midi_listener\<lparr>last_event_time := Some 9\<rparr>,
      (new_recorder 1 :: nat recorder)
        \<lparr>encoding_queue := [Finalize_recording (Some 0)], next_recording_id := 1,
         video_out := [Stopping_recording]\<rparr>) \<and>
   main_loop True sample_time 7 [(6, [144, 60, 100])]
     (new_midi_listener\<lparr>last_event_time := Some 1\<rparr>,
      (new_recorder 1 :: nat recorder)
        \<lparr>recording := True, next_recording_id := 1, current_recording_id := Some 0\<rparr>) =
     (new_midi_listener\<lparr>last_event_time := Some 1\<rparr>,
      (new_recorder 1 :: nat recorder)
        \<lparr>recording := True, next_recording_id := 1, current_recording_id := Some 0\<rparr>)"
proof -
  let ?m = "new_midi_listener\<lparr>last_event_time := Some 1\<rparr>"
  let ?v = "(new_recorder 1 :: nat recorder)
        \<lparr>recording := True, next_recording_id := 1, current_recording_id := Some 0\<rparr>"
  let ?arr = "[(9 :: real, [144, 60, 100 :: int])]"
  have h: "last_event_time ?m \<noteq> Some 0" by simp
  have d: "deliver ?m ?arr = ?m\<lparr>note_event_occurred := True, last_event_time := Some 9\<rparr>"
    by (simp add: midi_callback_def new_midi_listener_def)
  have flag: "?m\<lparr>note_event_occurred := False\<rparr> = ?m" by (simp add: new_midi_listener_def)
  note t10 = stop_decision [OF h, of True sample_time 10 ?arr ?v True sample_time 11 "[]"]
  note t7 = stop_decision [OF h, of True sample_time 7 "[(6, [144, 60, 100])]" ?v]
  have a: "main_loop True sample_time 10 ?arr (?m, ?v) =
       ((deliver (?m\<lparr>note_event_occurred := False\<rparr>) ?arr)\<lparr>note_event_occurred := False\<rparr>,
        stop_recording ?v)"
    using t10 by (simp add: new_midi_listener_def new_recorder_def)
  have stop: "True \<and> recording (if note_event_occurred ?m \<and> \<not> recording ?v
                 then start_recording ?v sample_time else ?v) \<and> \<not> pedal_pressed ?m \<and>
        (case last_event_time ?m of None \<Rightarrow> False | Some t \<Rightarrow> 10 - t > 7)"
    by (simp add: new_midi_listener_def new_recorder_def)
  from t10 stop have n: "main_loop True sample_time 11 [] (main_loop True sample_time 10 ?arr (?m, ?v)) =
      main_loop True sample_time 10 ?arr (?m, ?v)"
    by blast
  have b: "main_loop True sample_time 7 [(6, [144, 60, 100])] (?m, ?v) =
      (?m\<lparr>note_event_occurred := False\<rparr>, ?v)"
    using t7 by (simp add: new_midi_listener_def new_recorder_def)
  have r: "((deliver (?m\<lparr>note_event_occurred := False\<rparr>) ?arr)\<lparr>note_event_occurred := False\<rparr>,
        stop_recording ?v) =
      (new_midi_listener\<lparr>last_event_time := Some 9\<rparr>,
       (new_recorder 1 :: nat recorder)
        \<lparr>encoding_queue := [Finalize_recording (Some 0)], next_recording_id := 1,
         video_out := [Stopping_recording]\<rparr>)"
    unfolding flag d by (simp add: new_midi_listener_def new_recorder_def stop_recording_eq)
  have f: "note_event_occurred (deliver ?m ?arr)" unfolding d by simp
  have a': "main_loop True sample_time 10 ?arr (?m, ?v) =
      (new_midi_listener\<lparr>last_event_time := Some 9\<rparr>,
       (new_recorder 1 :: nat recorder)
        \<lparr>encoding_queue := [Finalize_recording (Some 0)], next_recording_id := 1,
         video_out := [Stopping_recording]\<rparr>)"
    using a r by (rule trans)
  have n': "main_loop True sample_time 11 [] (main_loop True sample_time 10 ?arr (?m, ?v)) =
      (new_midi_listener\<lparr>last_event_time := Some 9\<rparr>,
       (new_recorder 1 :: nat recorder)
        \<lparr>encoding_queue := [Finalize_recording (Some 0)], next_recording_id := 1,
         video_out := [Stopping_recording]\<rparr>)"
    using n a' by (rule trans)
  have b': "main_loop True sample_time 7 [(6, [144, 60, 100])] (?m, ?v) = (?m, ?v)"
    using b unfolding flag .
  show ?thesis
    using h f a' n' b' by blast
qed

section \<open>Runs of the recorder\<close>

subsection \<open>The recorder invariant\<close>

lemma length_deque_append: "length d \<le> maxlen \<Longrightarrow> length (deque_append maxlen d x) \<le> maxlen"
  by (cases d) (auto simp: deque_append_def Let_def)

lemma recorder_invariant_new: "recorder_invariant (new_recorder camera_fps)"
  by (simp add: recorder_invariant_def new_recorder_def)

lemma recorder_invariant_capture:
  assumes "recorder_invariant s"
  shows "recorder_invariant (capture_frames s r)"
proof (cases r)
  case None
  with assms show ?thesis by (simp add: capture_frames_def)
next
  case (Some frame)
  have e: "length (deque_append (buffer_size s) [] frame) \<le> buffer_size s"
    by (rule length_deque_append) simp
  have f: "length (deque_append (buffer_size s) (frame_buffer s) frame) \<le> buffer_size s"
    using assms by (intro length_deque_append) (simp add: recorder_invariant_def)
  show ?thesis
    using assms e f Some
    by (auto simp: recorder_invariant_def capture_frames_def put_def Let_def)
qed

lemma recorder_invariant_start:
  assumes "recorder_invariant s"
  shows "recorder_invariant (start_recording s now)"
proof (cases "recording s")
  case True
  with assms show ?thesis by (simp add: start_recording_def)
next
  case False
  with assms show ?thesis
    by (auto simp: recorder_invariant_def start_recording_idle less_Suc_eq)
qed

lemma recorder_invariant_stop:
  assumes "recorder_invariant s"
  shows "recorder_invariant (stop_recording s)"
  using assms by (auto simp: recorder_invariant_def stop_recording_eq)

lemma recorder_invariant_encode:
  assumes "recorder_invariant s"
  shows "recorder_invariant (encode_frames s frames r fault)"
  using assms
  by (cases r)
     (auto simp: recorder_invariant_def encode_frames_def print_line_def Let_def
        split: option.splits if_splits)

lemma recorder_invariant_finalize:
  assumes "recorder_invariant s"
  shows "recorder_invariant (finalize_recording s r fault)"
  using assms
  by (cases r)
     (auto simp: recorder_invariant_def finalize_recording_def print_line_def Let_def
        split: option.splits if_splits)

lemma recorder_invariant_dequeue:
  "recorder_invariant s \<Longrightarrow> encoding_queue s = t # rest \<Longrightarrow>
   recorder_invariant (s\<lparr>encoding_queue := rest\<rparr>)"
  by (simp add: recorder_invariant_def)

lemma recorder_invariant_worker:
  assumes "recorder_invariant s"
  shows "recorder_invariant (encoding_worker s fault)"
proof (cases "encoding_queue s")
  case Nil
  with assms show ?thesis by (simp add: encoding_worker_def)
next
  case (Cons t rest)
  with assms have "recorder_invariant (s\<lparr>encoding_queue := rest\<rparr>)"
    by (rule recorder_invariant_dequeue)
  with Cons show ?thesis
    by (cases t)
       (simp_all add: encoding_worker_def recorder_invariant_encode recorder_invariant_finalize)
qed

lemma recorder_invariant_step: "recorder_invariant s \<Longrightarrow> recorder_invariant (step s e)"
  by (cases e)
     (simp_all add: recorder_invariant_capture recorder_invariant_worker
        recorder_invariant_start recorder_invariant_stop)

lemma recorder_invariant_run: "recorder_invariant s \<Longrightarrow> recorder_invariant (run s evs)"
  by (induction evs arbitrary: s) (simp_all add: recorder_invariant_step)

subsection \<open>The frames of one recording\<close>

lemma pending_simps [simp]:
  "pending rid [] = []"
  "pending rid (t # q) = task_frames rid t @ pending rid q"
  "pending rid (q @ q') = pending rid q @ pending rid q'"
  by (simp_all add: pending_def)
















subsection \<open>Whole calls and the steps of the threads\<close>







lemma recorder_invariant_capture_locked:
  assumes "recorder_invariant s"
  shows "recorder_invariant (fst (capture_locked s frame))"
proof -
  have e: "length (deque_append (buffer_size s) [] frame) \<le> buffer_size s"
    by (rule length_deque_append) simp
  have f: "length (deque_append (buffer_size s) (frame_buffer s) frame) \<le> buffer_size s"
    using assms by (intro length_deque_append) (simp add: recorder_invariant_def)
  show ?thesis
    using assms e f by (auto simp: recorder_invariant_def capture_locked_def Let_def)
qed

lemma recorder_invariant_capture_put:
  assumes "recorder_invariant s"
  shows "recorder_invariant (capture_put s frames_to_encode)"
  using assms by (auto simp: recorder_invariant_def capture_put_def put_def)

lemma system_invariant_boot: "recorder_invariant s \<Longrightarrow> system_invariant (boot s)"
  by (simp add: system_invariant_def boot_def)

lemma encoding_worker_next:
  "next_recording_id (encoding_worker s fault) = next_recording_id s"
  by (auto simp: encoding_worker_def encode_frames_def finalize_recording_def print_line_def
        Let_def split: list.splits task.splits option.splits)

lemma system_invariant_act:
  assumes "system_invariant y"
  shows "system_invariant (act y a)"
proof (cases a)
  case (Read_frame r)
  with assms show ?thesis
    using recorder_invariant_capture_locked [of "shared y"]
    by (auto simp: system_invariant_def capture_locked_def Let_def
          split: capture_pc.splits option.splits prod.splits main_pc.splits)
next
  case Put_batch
  with assms show ?thesis
    using recorder_invariant_capture_put [of "shared y"]
    by (auto simp: system_invariant_def capture_put_def put_def
          split: capture_pc.splits main_pc.splits)
next
  case (Worker fault)
  with assms show ?thesis
    using recorder_invariant_worker [of "shared y" fault]
    by (auto simp: system_invariant_def encoding_worker_next split: main_pc.splits)
next
  case (Enter_start now)
  with assms show ?thesis
    by (auto simp: system_invariant_def recorder_invariant_def start_register_eq less_Suc_eq
          split: main_pc.splits)
next
  case Flip
  with assms show ?thesis
    by (auto simp: system_invariant_def recorder_invariant_def start_locked_def Let_def
          split: main_pc.splits prod.splits)
next
  case Put_preroll
  with assms show ?thesis
    by (auto simp: system_invariant_def recorder_invariant_def start_put_def put_def
          print_line_def split: main_pc.splits)
next
  case Call_stop
  with assms show ?thesis
    using recorder_invariant_stop [of "shared y"]
    by (auto simp: system_invariant_def split: main_pc.splits)
qed

lemma system_invariant_acts: "system_invariant y \<Longrightarrow> system_invariant (acts y as)"
  by (induction as arbitrary: y) (simp_all add: system_invariant_act)

lemma recorder_invariant_acts:
  "recorder_invariant (shared (acts (boot (new_recorder camera_fps)) as))"
proof -
  have "system_invariant (acts (boot (new_recorder camera_fps)) as)"
    by (intro system_invariant_acts system_invariant_boot recorder_invariant_new)
  then show ?thesis by (simp add: system_invariant_def)
qed

subsection \<open>From the start of a recording to its file\<close>

lemma capture_frames_fields [simp]:
  "current_recording_id (capture_frames s r) = current_recording_id s"
  "recording (capture_frames s r) = recording s"
  "active_recordings (capture_frames s r) = active_recordings s"
  "files (capture_frames s r) = files s"
  "fps (capture_frames s r) = fps s"
  by (cases r; simp add: capture_frames_def put_def Let_def)+

lemma encode_frames_fields [simp]:
  "current_recording_id (encode_frames s frames r fault) = current_recording_id s"
  "recording (encode_frames s frames r fault) = recording s"
  "files (encode_frames s frames r fault) = files s"
  "fps (encode_frames s frames r fault) = fps s"
  "frame_buffer (encode_frames s frames r fault) = frame_buffer s"
  by (cases r; simp add: encode_frames_def print_line_def Let_def split: option.splits)+

lemma finalize_recording_fields [simp]:
  "current_recording_id (finalize_recording s r fault) = current_recording_id s"
  "recording (finalize_recording s r fault) = recording s"
  "fps (finalize_recording s r fault) = fps s"
  "frame_buffer (finalize_recording s r fault) = frame_buffer s"
  by (cases r; simp add: finalize_recording_def print_line_def Let_def split: option.splits)+

lemma encoding_worker_fields [simp]:
  "current_recording_id (encoding_worker s fault) = current_recording_id s"
  "recording (encoding_worker s fault) = recording s"
  "fps (encoding_worker s fault) = fps s"
  "frame_buffer (encoding_worker s fault) = frame_buffer s"
  by (simp_all add: encoding_worker_def Let_def split: list.splits task.splits)






















text \<open>
  The calls of the theorem are taken whole. When \<^verbatim>\<open>stop_recording\<close> runs between the
  locked region of a capture iteration that drained the full buffer and its put, the
  batch is queued after the finalisation and under the id \<open>None\<close> that the put then reads:
  the worker finds no recording for it, and the file holds only the frame read last.
\<close>

lemma stop_between_drain_and_put:
  "map_option (map image)
     (files (shared (acts (boot (new_recorder 1 :: nat recorder))
        (whole (Start sample_time) @ whole (Capture (Some 1)) @ whole (Capture (Some 2)) @
         whole (Capture (Some 3)) @
         [Read_frame (Some 4), Call_stop, Put_batch, Worker None, Worker None, Worker None])))
        (video_file sample_time)) = Some [4] \<and>
   encoding_queue (shared (acts (boot (new_recorder 1 :: nat recorder))
        (whole (Start sample_time) @ whole (Capture (Some 1)) @ whole (Capture (Some 2)) @
         whole (Capture (Some 3)) @
         [Read_frame (Some 4), Call_stop, Put_batch]))) =
     [Encode_frames [4] (Some 0), Finalize_recording (Some 0), Encode_frames [1, 2, 3] None]"
  by code_simp


end
